theory Spec2Isabelle
  imports Complex_Main
begin

section \<open>The featurizer of NodeClassifier/utils/featurizer.py\<close>

text \<open>
  A shallow embedding of the module \<^verbatim>\<open>NodeClassifier/utils/featurizer.py\<close>.
  Python values are modelled as follows.
  \<^item> The language is Python 3 (3.7 or later): \<^verbatim>\<open>/\<close> is true division, a dictionary
    iterates in insertion order, and \<^verbatim>\<open>int\<close> accepts grouping underscores.
  \<^item> A Python \<^verbatim>\<open>str\<close> is a \<^typ>\<open>string\<close>; the model covers ASCII strings.
  \<^item> A Python \<^verbatim>\<open>int\<close> is an \<^typ>\<open>int\<close>; the limit on the number of digits that
    \<^verbatim>\<open>int\<close> converts (4300 by default since Python 3.11) is not modelled.
  \<^item> A \<^verbatim>\<open>dict\<close> is an association list in insertion order; a \<^verbatim>\<open>defaultdict(int)\<close>
    is an association list of counters.
  \<^item> Every exception the code can raise on these inputs is a value of \<open>py_error\<close>;
    a function that can raise returns \<open>py_error + 'a\<close>.
  \<^item> The quotient \<^verbatim>\<open>a / b\<close> of two integers (Python 3 true division) is the exact
    rational \<open>a / b\<close>; Python rounds it to the nearest double, which changes
    nothing for the values \<open>0\<close>, \<open>1/2\<close> and \<open>1\<close> that are stated below.
\<close>

subsection \<open>Exceptions and slices\<close>

datatype py_error = IndexError | ValueError | UnboundLocalError | AttributeError

text \<open>Sequencing of computations that may raise.\<close>

definition bind_err :: "py_error + 'a \<Rightarrow> ('a \<Rightarrow> py_error + 'b) \<Rightarrow> py_error + 'b" where
  "bind_err r f = (case r of Inl e \<Rightarrow> Inl e | Inr x \<Rightarrow> f x)"

text \<open>The slice \<^verbatim>\<open>s[i:j]\<close> for constant bounds \<open>0 \<le> i \<le> j\<close>: it truncates and never raises.\<close>

definition slice :: "nat \<Rightarrow> nat \<Rightarrow> 'a list \<Rightarrow> 'a list" where
  "slice i j s = take (j - i) (drop i s)"

text \<open>The character at a position of a string, if the string is that long.\<close>

definition char_at :: "string \<Rightarrow> nat \<Rightarrow> char option" where
  "char_at s i = (if i < length s then Some (s ! i) else None)"

subsection \<open>is_external\<close>

text \<open>
  \<^verbatim>\<open>
  def is_external(address_1, address_2):
      if address_1[0:3] == address_2[0:3]:
          return True
      return False
  \<close>
\<close>

definition is_external :: "string \<Rightarrow> string \<Rightarrow> bool" where
  "is_external address_1 address_2 =
     (if slice 0 3 address_1 = slice 0 3 address_2 then True else False)"

subsection \<open>Builtins: indexing, str.split, str.join, int\<close>

text \<open>\<^verbatim>\<open>xs[i]\<close> for a constant index \<open>i \<ge> 0\<close>: out of range it raises \<^verbatim>\<open>IndexError\<close>.\<close>

definition item :: "'a list \<Rightarrow> nat \<Rightarrow> py_error + 'a" where
  "item xs i = (if i < length xs then Inr (xs ! i) else Inl IndexError)"

text \<open>
  \<^verbatim>\<open>s.split(c)\<close> for a one-character separator: the fields between the separators, empty
  fields included. The result is never empty, so the last case below is never taken.
\<close>

fun split_on :: "char \<Rightarrow> string \<Rightarrow> string list" where
  "split_on c [] = [Nil]"
| "split_on c (x # xs) =
     (if x = c then [] # split_on c xs
      else (case split_on c xs of
              w # ws \<Rightarrow> (x # w) # ws
            | [] \<Rightarrow> [x # Nil]))"

text \<open>\<^verbatim>\<open>sep.join(parts)\<close>.\<close>

fun join :: "string \<Rightarrow> string list \<Rightarrow> string" where
  "join sep [] = []"
| "join sep [x] = x"
| "join sep (x # y # ys) = x @ sep @ join sep (y # ys)"

text \<open>
  \<^verbatim>\<open>int(s, base)\<close> on an ASCII string, for base 10 and base 16, after CPython's
  \<^verbatim>\<open>PyLong_FromString\<close>: white space on both sides is skipped, one sign is allowed, base 16
  allows the prefix \<^verbatim>\<open>0x\<close> (and one underscore after it), digits may be grouped by
  single underscores, and anything else raises \<^verbatim>\<open>ValueError\<close> (here \<open>None\<close>).
\<close>

definition py_isspace :: "char \<Rightarrow> bool" where
  "py_isspace c = (c \<in> set [CHR 0x09, CHR 0x0A, CHR 0x0B, CHR 0x0C, CHR 0x0D, CHR 0x20])"

definition digit_value :: "char \<Rightarrow> nat option" where
  "digit_value c =
     (let n = (of_char c :: nat) in
      if 48 \<le> n \<and> n \<le> 57 then Some (n - 48)
      else if 97 \<le> n \<and> n \<le> 122 then Some (n - 87)
      else if 65 \<le> n \<and> n \<le> 90 then Some (n - 55)
      else None)"

definition is_digit :: "nat \<Rightarrow> char \<Rightarrow> bool" where
  "is_digit base c = (case digit_value c of Some d \<Rightarrow> d < base | None \<Rightarrow> False)"

fun double_underscore :: "string \<Rightarrow> bool" where
  "double_underscore (a # b # r) =
     ((a = CHR ''_'' \<and> b = CHR ''_'') \<or> double_underscore (b # r))"
| "double_underscore r = False"

definition digits_value :: "nat \<Rightarrow> string \<Rightarrow> nat" where
  "digits_value base ds =
     foldl (\<lambda>acc c. acc * base + (case digit_value c of Some d \<Rightarrow> d | None \<Rightarrow> 0)) 0 ds"

definition py_int :: "nat \<Rightarrow> string \<Rightarrow> int option" where
  "py_int base s =
     (let s1 = dropWhile py_isspace s;
          negative = (take 1 s1 = ''-'');
          s2 = (if take 1 s1 = ''+'' \<or> take 1 s1 = ''-'' then drop 1 s1 else s1);
          s3 = (if base = 16 \<and> (take 2 s2 = ''0x'' \<or> take 2 s2 = ''0X'')
                then (if take 1 (drop 2 s2) = ''_'' then drop 3 s2 else drop 2 s2)
                else s2);
          body = takeWhile (\<lambda>c. is_digit base c \<or> c = CHR ''_'') s3;
          rest = dropWhile (\<lambda>c. is_digit base c \<or> c = CHR ''_'') s3
      in if body = [] \<or> hd body = CHR ''_'' \<or> last body = CHR ''_'' \<or> double_underscore body
            \<or> dropWhile py_isspace rest \<noteq> []
         then None
         else Some ((if negative then - 1 else 1)
                    * int (digits_value base (filter (\<lambda>c. c \<noteq> CHR ''_'') body))))"

subsection \<open>extract_macs\<close>

text \<open>
  \<^verbatim>\<open>
  def extract_macs(packet):
      source_mac = packet[12:24]
      dest_mac = packet[0:12]
      source_mac = ':'.join(source_mac[i:i+2] for i in range(0,len(source_mac), 2))
      destination_mac = ':'.join(dest_mac[i:i+2] for i in range(0,len(dest_mac),2))
      return source_mac, destination_mac
  \<close>
  \<open>chunks2 s\<close> is the list of \<^verbatim>\<open>s[i:i+2]\<close> for \<^verbatim>\<open>i in range(0, len(s), 2)\<close>.
\<close>

fun chunks2 :: "string \<Rightarrow> string list" where
  "chunks2 [] = []"
| "chunks2 [a] = [a # Nil]"
| "chunks2 (a # b # r) = [a, b] # chunks2 r"

definition extract_macs :: "string \<Rightarrow> string \<times> string" where
  "extract_macs packet =
     (let source_mac = slice 12 24 packet;
          dest_mac = slice 0 12 packet
      in (join '':'' (chunks2 source_mac), join '':'' (chunks2 dest_mac)))"

subsection \<open>is_private\<close>

text \<open>
  \<^verbatim>\<open>
  def is_private(address):
      if len(address) > 4:
          pairs = address.split('.')
      elif len(address) == 4:
          pairs = address
      private = False
      if pairs[0] == '10': private = True
      if pairs[0] == '192' and pairs[1] == '168': private = True
      if pairs[0] == '172' and 16 <= int(pairs[1]) <= 31: private = True
      return private
  \<close>
  The argument is a string or a list of strings. A list has no \<^verbatim>\<open>split\<close>
  (\<^verbatim>\<open>AttributeError\<close>). Indexing a string of length 4 gives its characters as
  one-character strings. When neither branch of the first statement runs, \<^verbatim>\<open>pairs\<close>
  is unbound and its first use raises \<^verbatim>\<open>UnboundLocalError\<close>.
\<close>

datatype address = Str string | Lst "string list"

definition address_pairs :: "address \<Rightarrow> py_error + string list" where
  "address_pairs address =
     (case address of
        Str s \<Rightarrow>
          if length s > 4 then Inr (split_on CHR ''.'' s)
          else if length s = 4 then Inr (map (\<lambda>c. [c]) s)
          else Inl UnboundLocalError
      | Lst l \<Rightarrow>
          if length l > 4 then Inl AttributeError
          else if length l = 4 then Inr l
          else Inl UnboundLocalError)"

definition classify_pairs :: "string list \<Rightarrow> py_error + bool" where
  "classify_pairs pairs =
     bind_err (item pairs 0) (\<lambda>p0.
     let private1 = (if p0 = ''10'' then True else False) in
     bind_err (if p0 = ''192'' then bind_err (item pairs 1) (\<lambda>p1. Inr (p1 = ''168''))
               else Inr False) (\<lambda>c2.
     let private2 = (if c2 then True else private1) in
     bind_err (if p0 = ''172''
               then bind_err (item pairs 1) (\<lambda>p1.
                      case py_int 10 p1 of
                        None \<Rightarrow> Inl ValueError
                      | Some n \<Rightarrow> Inr (16 \<le> n \<and> n \<le> 31))
               else Inr False) (\<lambda>c3.
     Inr (if c3 then True else private2))))"

definition is_private :: "address \<Rightarrow> py_error + bool" where
  "is_private address = bind_err (address_pairs address) classify_pairs"

subsection \<open>Sessions\<close>

text \<open>
  A session key is a pair of \<^verbatim>\<open>"address:port"\<close> strings; a session is a list of
  \<^verbatim>\<open>(timestamp, hex string)\<close> pairs; the session dictionary is the list of its items in
  iteration order. The code never reads a timestamp, so its type is a parameter.
  \<open>first_packet\<close> is \<^verbatim>\<open>session[0][1]\<close>, which raises \<^verbatim>\<open>IndexError\<close> on an empty session.
\<close>

type_synonym session_key = "string \<times> string"

type_synonym 't session = "('t \<times> string) list"

type_synonym 't sessions = "(session_key \<times> 't session) list"

definition first_packet :: "'t session \<Rightarrow> py_error + string" where
  "first_packet session = bind_err (item session 0) (\<lambda>p. Inr (snd p))"

text \<open>
  A \<^verbatim>\<open>defaultdict(int)\<close> in insertion order. \<open>incr k d\<close> is \<^verbatim>\<open>d[k] += 1\<close>: a new key
  goes to the end with the value 1. \<open>count_of d k\<close> reads the counter of \<open>k\<close>.
\<close>

type_synonym counts = "(string \<times> int) list"

fun incr :: "string \<Rightarrow> counts \<Rightarrow> counts" where
  "incr k [] = [(k, 1)]"
| "incr k ((k', v) # d) = (if k = k' then (k', v + 1) # d else (k', v) # incr k d)"

definition count_of :: "counts \<Rightarrow> string \<Rightarrow> int" where
  "count_of d k = (case map_of d k of Some v \<Rightarrow> v | None \<Rightarrow> 0)"

subsection \<open>get_source\<close>

text \<open>
  \<^verbatim>\<open>
  def get_source(sessions):
      all_ips= defaultdict(int)
      all_macs = defaultdict(int)
      incoming_ips = defaultdict(int)
      incoming_macs = defaultdict(int)
      outgoing_ips = defaultdict(int)
      outgoing_macs = defaultdict(int)
      for key in sessions:
          incoming_address = key[1].split(':')[0]
          outgoing_address = key[0].split(':')[0]
          first_packet = sessions[key][0][1]
          source_mac, destination_mac = extract_macs(first_packet)
          if is_private(incoming_address) and is_private(outgoing_address):
              all_ips[incoming_address] += 1
              all_ips[outgoing_address] += 1
              all_macs[source_mac] += 1
              all_macs[destination_mac] +=1
              incoming_ips[incoming_address] += 1
              incoming_macs[source_mac] += 1
              outgoing_ips[outgoing_address] += 1
              outgoing_ips[destination_mac] += 1
      if len(sessions) == 0:
          return None, 0, 0
      sorted_sources = sorted(all_macs.keys(), key=(lambda k: all_macs[k]), reverse=True)
      capture_source = '00:00:00:00:00:00'
      if len(sorted_sources) > 0:
          capture_source = sorted_sources[0]
      num_incoming = incoming_macs[capture_source]
      num_outgoing = outgoing_macs[capture_source]
      return capture_source
  \<close>
  The function returns the tuple \<^verbatim>\<open>(None, 0, 0)\<close> for an empty dictionary and a string
  otherwise: \<open>NoSource\<close> stands for the tuple. The loop visits the items in iteration
  order, \<^verbatim>\<open>sessions[key]\<close> being the session of the item. The two reads after the sort
  only touch local dictionaries.
\<close>

record counters =
  all_ips :: counts
  all_macs :: counts
  incoming_ips :: counts
  incoming_macs :: counts
  outgoing_ips :: counts
  outgoing_macs :: counts

definition empty_counters :: counters where
  "empty_counters =
     \<lparr>all_ips = [], all_macs = [], incoming_ips = [], incoming_macs = [],
      outgoing_ips = [], outgoing_macs = []\<rparr>"

definition count_session :: "counters \<Rightarrow> session_key \<times> 't session \<Rightarrow> py_error + counters" where
  "count_session c ks =
     (let key = fst ks in
      bind_err (item (split_on CHR '':'' (snd key)) 0) (\<lambda>incoming_address.
      bind_err (item (split_on CHR '':'' (fst key)) 0) (\<lambda>outgoing_address.
      bind_err (first_packet (snd ks)) (\<lambda>packet.
      let source_mac = fst (extract_macs packet);
          destination_mac = snd (extract_macs packet) in
      bind_err (is_private (Str incoming_address)) (\<lambda>private_in.
      bind_err (if private_in then is_private (Str outgoing_address) else Inr False) (\<lambda>both.
      if both
      then Inr (c\<lparr>all_ips := incr outgoing_address (incr incoming_address (all_ips c)),
                  all_macs := incr destination_mac (incr source_mac (all_macs c)),
                  incoming_ips := incr incoming_address (incoming_ips c),
                  incoming_macs := incr source_mac (incoming_macs c),
                  outgoing_ips := incr destination_mac (incr outgoing_address (outgoing_ips c))\<rparr>)
      else Inr c))))))"

fun count_sessions :: "counters \<Rightarrow> 't sessions \<Rightarrow> py_error + counters" where
  "count_sessions c [] = Inr c"
| "count_sessions c (ks # rest) = bind_err (count_session c ks) (\<lambda>c'. count_sessions c' rest)"

text \<open>
  \<^verbatim>\<open>sorted(xs, key=f, reverse=True)\<close>: descending in the key, and stable (elements with
  equal keys keep their order), which is the stable ascending sort by the negated key.
\<close>

definition sorted_desc :: "('a \<Rightarrow> int) \<Rightarrow> 'a list \<Rightarrow> 'a list" where
  "sorted_desc f xs = sort_key (\<lambda>x. - f x) xs"

datatype capture_source = NoSource | Mac string

definition get_source :: "'t sessions \<Rightarrow> py_error + capture_source" where
  "get_source sessions =
     bind_err (count_sessions empty_counters sessions) (\<lambda>c.
       if length sessions = 0 then Inr NoSource
       else
         let sorted_sources = sorted_desc (count_of (all_macs c)) (map fst (all_macs c));
             capture_source =
               (if length sorted_sources > 0 then sorted_sources ! 0
                else ''00:00:00:00:00:00'')
         in Inr (Mac capture_source))"

subsection \<open>packet_size, extract_session_size, extract_protocol, is_protocol\<close>

text \<open>
  \<^verbatim>\<open>
  def packet_size(packet):
      size = packet[1][32:36]
      try:
          size = int(size, 16)
      except:
          size = 0
      return size
  \<close>
  The argument is a \<^verbatim>\<open>(timestamp, hex string)\<close> pair, as the entries of a session are;
  the docstring calls it a hex string, for which \<^verbatim>\<open>packet[1]\<close> is the second character
  and raises \<^verbatim>\<open>IndexError\<close> outside the \<^verbatim>\<open>try\<close> when there is none.
\<close>

datatype 't packet_arg = Hex string | Stamped 't string

definition packet_item1 :: "'t packet_arg \<Rightarrow> py_error + string" where
  "packet_item1 packet =
     (case packet of
        Hex s \<Rightarrow> bind_err (item s 1) (\<lambda>c. Inr [c])
      | Stamped t h \<Rightarrow> Inr h)"

definition packet_size :: "'t packet_arg \<Rightarrow> py_error + int" where
  "packet_size packet =
     bind_err (packet_item1 packet) (\<lambda>p1.
       let size = slice 32 36 p1
       in Inr (case py_int 16 size of Some n \<Rightarrow> n | None \<Rightarrow> 0))"

text \<open>
  \<^verbatim>\<open>
  def extract_session_size(session):
      session_size = sum([packet_size(p) for p in session])
      return session_size

  def extract_protocol(session):
      protocol = session[0][1][46:48]
      return protocol

  def is_protocol(session, protocol):
      p = extract_protocol(session)
      if protocol == p:
          return True
      return False
  \<close>
\<close>

fun extract_session_size :: "'t session \<Rightarrow> py_error + int" where
  "extract_session_size [] = Inr 0"
| "extract_session_size (p # ps) =
     bind_err (packet_size (Stamped (fst p) (snd p))) (\<lambda>n.
     bind_err (extract_session_size ps) (\<lambda>m. Inr (n + m)))"

definition extract_protocol :: "'t session \<Rightarrow> py_error + string" where
  "extract_protocol session = bind_err (first_packet session) (\<lambda>p. Inr (slice 46 48 p))"

definition is_protocol :: "'t session \<Rightarrow> string \<Rightarrow> py_error + bool" where
  "is_protocol session protocol =
     bind_err (extract_protocol session) (\<lambda>p. Inr (if protocol = p then True else False))"

subsection \<open>extract_features\<close>

text \<open>
  \<^verbatim>\<open>
  def extract_features(session_dict, capture_source=None, max_port=1024):
      if capture_source is None:
          capture_source = get_source(session_dict)
      num_source_sess = [0]*max_port
      num_destination_sess = [0]*max_port
      num_sessions = 0
      num_external = 0
      num_tcp_sess = 0
      num_udp_sess = 0
      num_icmp_sess = 0
      other_ips = defaultdict(int)
      for key, session in session_dict.items():
          address_1, port_1 = key[0].split(':')
          address_2, port_2 = key[1].split(':')
          first_packet = session[0][1]
          source_mac, destination_mac = extract_macs(first_packet)
          if source_mac == capture_source:
              if is_private(address_2):
                  other_ips[address_2] += 1
              num_sessions += 1
              num_external += is_external(address_1, address_2)
              num_tcp_sess += is_protocol(session, '06')
              num_udp_sess += is_protocol(session, '11')
              num_icmp_sess += is_protocol(session, '01')
              if int(port_1) < max_port:
                  num_source_sess[int(port_1)] += 1
              if int(port_2) < max_port:
                  num_destination_sess[int(port_2)] += 1
          if destination_mac == capture_source:
              if is_private(address_1):
                  other_ips[address_1] += 1
      num_port_sess = np.concatenate((num_source_sess, num_destination_sess), axis=0)
      if num_sessions == 0: num_sessions += 1
      num_port_sess = np.asarray(num_port_sess)/num_sessions
      extra_features = [0]*4
      extra_features[0] = num_external/num_sessions
      extra_features[1] = num_tcp_sess/num_sessions
      extra_features[2] = num_udp_sess/num_sessions
      extra_features[3] = num_icmp_sess/num_sessions
      feature_vector = np.concatenate((num_port_sess, extra_features), axis=0)
      return feature_vector, capture_source, list(other_ips.keys())
  \<close>
\<close>

record aggregate =
  num_source_sess :: "int list"
  num_destination_sess :: "int list"
  num_sessions :: int
  num_external :: int
  num_tcp_sess :: int
  num_udp_sess :: int
  num_icmp_sess :: int
  other_ips :: counts

text \<open>\<^verbatim>\<open>a, b = parts\<close> raises \<^verbatim>\<open>ValueError\<close> unless there are exactly two parts.\<close>

definition unpack2 :: "string list \<Rightarrow> py_error + string \<times> string" where
  "unpack2 parts = (case parts of [a, b] \<Rightarrow> Inr (a, b) | _ \<Rightarrow> Inl ValueError)"

text \<open>\<^verbatim>\<open>int(s)\<close>, raising \<^verbatim>\<open>ValueError\<close>.\<close>

definition int_of_str :: "string \<Rightarrow> py_error + int" where
  "int_of_str s = (case py_int 10 s of Some n \<Rightarrow> Inr n | None \<Rightarrow> Inl ValueError)"

text \<open>
  \<^verbatim>\<open>xs[i] += 1\<close> for a computed index: a negative index counts from the end, and an index
  outside \<open>-len \<le> i < len\<close> raises \<^verbatim>\<open>IndexError\<close>.
\<close>

definition bump_at :: "int list \<Rightarrow> int \<Rightarrow> py_error + int list" where
  "bump_at xs i =
     (let n = int (length xs);
          j = (if i < 0 then n + i else i)
      in if 0 \<le> j \<and> j < n then Inr (xs[nat j := xs ! nat j + 1]) else Inl IndexError)"

text \<open>The body of \<^verbatim>\<open>if source_mac == capture_source:\<close>.\<close>

definition source_side ::
  "int \<Rightarrow> aggregate \<Rightarrow> 't session \<Rightarrow> string \<Rightarrow> string \<Rightarrow> string \<Rightarrow> string \<Rightarrow> py_error + aggregate"
where
  "source_side max_port a session address_1 port_1 address_2 port_2 =
     bind_err (is_private (Str address_2)) (\<lambda>private_2.
     let a1 = a\<lparr>other_ips := (if private_2 then incr address_2 (other_ips a) else other_ips a)\<rparr>;
         a2 = a1\<lparr>num_sessions := num_sessions a1 + 1\<rparr>;
         a3 = a2\<lparr>num_external := num_external a2 + of_bool (is_external address_1 address_2)\<rparr>
     in
     bind_err (is_protocol session ''06'') (\<lambda>tcp.
     bind_err (is_protocol session ''11'') (\<lambda>udp.
     bind_err (is_protocol session ''01'') (\<lambda>icmp.
     let a4 = a3\<lparr>num_tcp_sess := num_tcp_sess a3 + of_bool tcp,
                  num_udp_sess := num_udp_sess a3 + of_bool udp,
                  num_icmp_sess := num_icmp_sess a3 + of_bool icmp\<rparr>
     in
     bind_err (int_of_str port_1) (\<lambda>p1.
     bind_err (if p1 < max_port then bump_at (num_source_sess a4) p1
               else Inr (num_source_sess a4)) (\<lambda>src.
     bind_err (int_of_str port_2) (\<lambda>p2.
     bind_err (if p2 < max_port then bump_at (num_destination_sess a4) p2
               else Inr (num_destination_sess a4)) (\<lambda>dst.
     Inr (a4\<lparr>num_source_sess := src, num_destination_sess := dst\<rparr>)))))))))"

text \<open>The body of \<^verbatim>\<open>if destination_mac == capture_source:\<close>.\<close>

definition destination_side :: "aggregate \<Rightarrow> string \<Rightarrow> py_error + aggregate" where
  "destination_side a address_1 =
     bind_err (is_private (Str address_1)) (\<lambda>private_1.
     Inr (a\<lparr>other_ips := (if private_1 then incr address_1 (other_ips a) else other_ips a)\<rparr>))"

text \<open>The body of the loop, for one item of the dictionary.\<close>

definition scan_session ::
  "capture_source \<Rightarrow> int \<Rightarrow> aggregate \<Rightarrow> session_key \<times> 't session \<Rightarrow> py_error + aggregate"
where
  "scan_session capture_source max_port a ks =
     (let key = fst ks; session = snd ks in
      bind_err (unpack2 (split_on CHR '':'' (fst key))) (\<lambda>ap1.
      bind_err (unpack2 (split_on CHR '':'' (snd key))) (\<lambda>ap2.
      let address_1 = fst ap1; port_1 = snd ap1;
          address_2 = fst ap2; port_2 = snd ap2 in
      bind_err (first_packet session) (\<lambda>packet.
      let source_mac = fst (extract_macs packet);
          destination_mac = snd (extract_macs packet) in
      bind_err (if Mac source_mac = capture_source
                then source_side max_port a session address_1 port_1 address_2 port_2
                else Inr a) (\<lambda>a5.
      if Mac destination_mac = capture_source
      then destination_side a5 address_1
      else Inr a5)))))"

fun scan_sessions ::
  "capture_source \<Rightarrow> int \<Rightarrow> aggregate \<Rightarrow> 't sessions \<Rightarrow> py_error + aggregate"
where
  "scan_sessions capture_source max_port a [] = Inr a"
| "scan_sessions capture_source max_port a (ks # rest) =
     bind_err (scan_session capture_source max_port a ks) (\<lambda>a'.
       scan_sessions capture_source max_port a' rest)"

text \<open>The counters before the loop; \<^verbatim>\<open>[0]*max_port\<close> is empty for \<open>max_port \<le> 0\<close>.\<close>

definition init_aggregate :: "int \<Rightarrow> aggregate" where
  "init_aggregate max_port =
     \<lparr>num_source_sess = replicate (nat max_port) 0,
      num_destination_sess = replicate (nat max_port) 0,
      num_sessions = 0, num_external = 0, num_tcp_sess = 0, num_udp_sess = 0,
      num_icmp_sess = 0, other_ips = []\<rparr>"

text \<open>The statements after the loop: the divisor, the two divisions and the concatenations.\<close>

definition feature_vector :: "aggregate \<Rightarrow> rat list" where
  "feature_vector a =
     (let n = (if num_sessions a = 0 then num_sessions a + 1 else num_sessions a);
          num_port_sess =
            map (\<lambda>c. of_int c / of_int n) (num_source_sess a @ num_destination_sess a);
          extra_features =
            [of_int (num_external a) / of_int n, of_int (num_tcp_sess a) / of_int n,
             of_int (num_udp_sess a) / of_int n, of_int (num_icmp_sess a) / of_int n]
      in num_port_sess @ extra_features)"

text \<open>The first statement: the capture source, given or resolved by \<open>get_source\<close>.\<close>

definition resolve_source :: "'t sessions \<Rightarrow> string option \<Rightarrow> py_error + capture_source" where
  "resolve_source session_dict capture_source =
     (case capture_source of None \<Rightarrow> get_source session_dict | Some m \<Rightarrow> Inr (Mac m))"

definition extract_features ::
  "'t sessions \<Rightarrow> string option \<Rightarrow> int \<Rightarrow> py_error + (rat list \<times> capture_source \<times> string list)"
where
  "extract_features session_dict capture_source max_port =
     bind_err (resolve_source session_dict capture_source) (\<lambda>source.
     bind_err (scan_sessions source max_port (init_aggregate max_port) session_dict) (\<lambda>a.
     Inr (feature_vector a, source, map fst (other_ips a))))"

subsection \<open>Well-formed dotted-quad addresses and the RFC 1918 ranges\<close>

text \<open>
  The decimal numeral of a natural number (Python's \<^verbatim>\<open>str(n)\<close>), the dotted-quad string of
  four octets, and the private ranges 10.0.0.0/8, 172.16.0.0/12 and 192.168.0.0/16. These
  state the claims; the code does not use them.
\<close>

fun decimal :: "nat \<Rightarrow> string" where
  "decimal n =
     (if n < 10 then [char_of (48 + n)]
      else decimal (n div 10) @ [char_of (48 + n mod 10)])"

declare decimal.simps [simp del]

definition dotted_quad :: "nat \<Rightarrow> nat \<Rightarrow> nat \<Rightarrow> nat \<Rightarrow> string" where
  "dotted_quad a b c d = decimal a @ ''.'' @ decimal b @ ''.'' @ decimal c @ ''.'' @ decimal d"

definition rfc1918 :: "nat \<Rightarrow> nat \<Rightarrow> nat \<Rightarrow> nat \<Rightarrow> bool" where
  "rfc1918 a b c d = (a = 10 \<or> (a = 172 \<and> 16 \<le> b \<and> b \<le> 31) \<or> (a = 192 \<and> b = 168))"

text \<open>The characters of a decimal numeral: digits, and none of the other characters that
  \<^verbatim>\<open>int\<close> and \<^verbatim>\<open>split\<close> treat specially.\<close>

definition dec_char :: "char \<Rightarrow> bool" where
  "dec_char c = (is_digit 10 c \<and> c \<noteq> CHR ''.'' \<and> c \<noteq> CHR ''_'' \<and> c \<noteq> CHR ''+''
     \<and> c \<noteq> CHR ''-'' \<and> \<not> py_isspace c)"

definition hex_char :: "char \<Rightarrow> bool" where
  "hex_char c = (is_digit 16 c \<and> c \<noteq> CHR ''_'' \<and> c \<noteq> CHR ''+'' \<and> c \<noteq> CHR ''-''
     \<and> c \<noteq> CHR ''x'' \<and> c \<noteq> CHR ''X'' \<and> \<not> py_isspace c)"

subsection \<open>Notions that state the claims on sessions\<close>

text \<open>
  These describe a session dictionary without running the loops. \<open>source_matches\<close>: the
  source MAC of the first packet is the capture source. \<open>source_port\<close>: the port of the
  first endpoint of the key. \<open>port_below\<close>: that port has a histogram bin below
  \<open>max_port\<close>; \<open>port_at_least\<close>: that port is \<open>max_port\<close> or more. \<open>address_of\<close>:
  the part of an endpoint before its first colon. \<open>both_private\<close>: both endpoint
  addresses of the key are private.
  \<open>mac_occurrences\<close>: the source and the destination MAC of the first packet of every
  session between two private addresses, in iteration order.
\<close>

definition source_matches :: "capture_source \<Rightarrow> 't session \<Rightarrow> bool" where
  "source_matches source session =
     (case session of [] \<Rightarrow> False | p # _ \<Rightarrow> Mac (fst (extract_macs (snd p))) = source)"

definition source_port :: "session_key \<Rightarrow> int option" where
  "source_port key =
     (case unpack2 (split_on CHR '':'' (fst key)) of
        Inl e \<Rightarrow> None
      | Inr ap \<Rightarrow> py_int 10 (snd ap))"

definition port_below :: "int \<Rightarrow> session_key \<Rightarrow> bool" where
  "port_below max_port key =
     (case source_port key of Some p \<Rightarrow> p < max_port | None \<Rightarrow> False)"

definition matching :: "capture_source \<Rightarrow> 't sessions \<Rightarrow> 't sessions" where
  "matching source session_dict = filter (\<lambda>ks. source_matches source (snd ks)) session_dict"

definition matching_binned :: "capture_source \<Rightarrow> int \<Rightarrow> 't sessions \<Rightarrow> 't sessions" where
  "matching_binned source max_port session_dict =
     filter (\<lambda>ks. port_below max_port (fst ks)) (matching source session_dict)"

definition port_at_least :: "int \<Rightarrow> session_key \<Rightarrow> bool" where
  "port_at_least max_port key =
     (case source_port key of Some p \<Rightarrow> max_port \<le> p | None \<Rightarrow> False)"

definition matching_unbinned :: "capture_source \<Rightarrow> int \<Rightarrow> 't sessions \<Rightarrow> 't sessions" where
  "matching_unbinned source max_port session_dict =
     filter (\<lambda>ks. port_at_least max_port (fst ks)) (matching source session_dict)"

definition address_of :: "string \<Rightarrow> string" where
  "address_of endpoint = takeWhile (\<lambda>c. c \<noteq> CHR '':'') endpoint"

definition both_private :: "session_key \<Rightarrow> bool" where
  "both_private key =
     (is_private (Str (address_of (snd key))) = Inr True \<and>
      is_private (Str (address_of (fst key))) = Inr True)"

definition session_macs :: "'t session \<Rightarrow> string list" where
  "session_macs session =
     (case session of
        [] \<Rightarrow> []
      | p # _ \<Rightarrow> [fst (extract_macs (snd p)), snd (extract_macs (snd p))])"

definition mac_occurrences :: "'t sessions \<Rightarrow> string list" where
  "mac_occurrences session_dict =
     concat (map (\<lambda>ks. session_macs (snd ks))
                 (filter (\<lambda>ks. both_private (fst ks)) session_dict))"

text \<open>
  The shape of a session dictionary as the sessionizer delivers it: every key is a pair of
  endpoints \<^verbatim>\<open>a.b.c.d:port\<close> of decimal fields, and every session has a first packet.
\<close>

definition ascii_digit :: "char \<Rightarrow> bool" where
  "ascii_digit c = (48 \<le> (of_char c :: nat) \<and> (of_char c :: nat) \<le> 57)"

definition decimal_string :: "string \<Rightarrow> bool" where
  "decimal_string s = (s \<noteq> [] \<and> list_all ascii_digit s)"

definition well_formed_address :: "string \<Rightarrow> bool" where
  "well_formed_address address =
     (case split_on CHR ''.'' address of
        [a, b, c, d] \<Rightarrow>
          decimal_string a \<and> decimal_string b \<and> decimal_string c \<and> decimal_string d
      | _ \<Rightarrow> False)"

definition well_formed_endpoint :: "string \<Rightarrow> bool" where
  "well_formed_endpoint endpoint =
     (case split_on CHR '':'' endpoint of
        [address, port] \<Rightarrow> well_formed_address address \<and> decimal_string port
      | _ \<Rightarrow> False)"

definition well_formed :: "'t sessions \<Rightarrow> bool" where
  "well_formed session_dict =
     list_all (\<lambda>ks. well_formed_endpoint (fst (fst ks)) \<and> well_formed_endpoint (snd (fst ks))
                  \<and> snd ks \<noteq> [])
       session_dict"

subsection \<open>The two-session scenario\<close>

text \<open>
  Two sessions of one host: a TCP session from 192.168.1.5:80 to 192.168.1.10:4000 and a
  UDP session to 192.168.1.11:53 (from port 5353, which the scenario leaves open), both
  with the source MAC aa:aa:aa:aa:aa:aa in their first packet. A packet is an Ethernet
  header (destination MAC, source MAC, EtherType 0800) and the start of an IPv4 header
  with total length 0028 and the protocol byte (06 or 11) at hex offset 46.
\<close>

definition tcp_packet :: string where
  "tcp_packet = ''bbbbbbbbbbbbaaaaaaaaaaaa08004500002800004000400600000000''"

definition udp_packet :: string where
  "udp_packet = ''ccccccccccccaaaaaaaaaaaa08004500002800004000401100000000''"

text \<open>A truncated packet whose total-length field is not hexadecimal.\<close>

definition malformed_packet :: string where
  "malformed_packet = ''bbbbbbbbbbbbaaaaaaaaaaaa08004500zz''"

definition two_sessions :: "nat sessions" where
  "two_sessions =
     [((''192.168.1.5:80'', ''192.168.1.10:4000''), [(0, tcp_packet)]),
      ((''192.168.1.5:5353'', ''192.168.1.11:53''), [(1, udp_packet)])]"

text \<open>The TCP session alone: its two MAC addresses occur once each.\<close>

definition tcp_session_only :: "nat sessions" where
  "tcp_session_only = [((''192.168.1.5:80'', ''192.168.1.10:4000''), [(0, tcp_packet)])]"

text \<open>
  What the loop of \<open>extract_features\<close> leaves for the scenario, and the vector that results
  for \<open>max_port = 1024\<close>: bin 80 of the source histogram, bin 53 of the destination
  histogram, and the four fractions.
\<close>

definition scenario_aggregate :: "int \<Rightarrow> aggregate" where
  "scenario_aggregate max_port =
     \<lparr>num_source_sess = (replicate (nat max_port) 0)[80 := 1],
      num_destination_sess = (replicate (nat max_port) 0)[53 := 1],
      num_sessions = 2, num_external = 2, num_tcp_sess = 1, num_udp_sess = 1,
      num_icmp_sess = 0,
      other_ips = [(''192.168.1.10'', 1), (''192.168.1.11'', 1)]\<rparr>"

definition scenario_vector :: "rat list" where
  "scenario_vector =
     (replicate 1024 0)[80 := 1 / 2] @ (replicate 1024 0)[53 := 1 / 2] @ [1, 1 / 2, 1 / 2, 0]"

section \<open>Properties\<close>

subsection \<open>Sequencing\<close>

lemma bind_err_Inr: "bind_err (Inr x) f = f x"
  by (simp add: bind_err_def)

lemma bind_err_Inr_iff: "bind_err r f = Inr y \<longleftrightarrow> (\<exists>x. r = Inr x \<and> f x = Inr y)"
  by (cases r) (simp_all add: bind_err_def)

subsection \<open>Slices\<close>

lemma slice_0_3_eq_iff:
  "slice 0 3 s = slice 0 3 t \<longleftrightarrow>
     char_at s 0 = char_at t 0 \<and> char_at s 1 = char_at t 1 \<and> char_at s 2 = char_at t 2"
proof (cases s)
  case Nil
  then show ?thesis
    by (cases t) (auto simp: slice_def char_at_def)
next
  case s1: (Cons a s')
  show ?thesis
  proof (cases t)
    case Nil
    with s1 show ?thesis by (auto simp: slice_def char_at_def)
  next
    case t1: (Cons b t')
    show ?thesis
    proof (cases s')
      case Nil
      with s1 t1 show ?thesis
        by (cases t') (auto simp: slice_def char_at_def)
    next
      case s2: (Cons a2 s'')
      show ?thesis
      proof (cases t')
        case Nil
        with s1 t1 s2 show ?thesis by (auto simp: slice_def char_at_def)
      next
        case t2: (Cons b2 t'')
        with s1 t1 s2 show ?thesis
          by (cases s''; cases t'') (auto simp: slice_def char_at_def numeral_3_eq_3)
      qed
    qed
  qed
qed

subsection \<open>Decimal numerals, int and split\<close>

lemma digit_value_char_of: "k < 10 \<Longrightarrow> digit_value (char_of (48 + k)) = Some (k::nat)"
  by (simp add: digit_value_def Let_def)

lemma is_digit_char_of: "(k::nat) < 10 \<Longrightarrow> is_digit 10 (char_of (48 + k))"
  by (simp add: is_digit_def digit_value_char_of)

lemma char_of_digit_neq:
  assumes "(k::nat) < 10"
  shows "char_of (48 + k) \<noteq> CHR ''.''" "char_of (48 + k) \<noteq> CHR ''_''"
    "char_of (48 + k) \<noteq> CHR ''+''" "char_of (48 + k) \<noteq> CHR ''-''"
    "\<not> py_isspace (char_of (48 + k))"
proof -
  have v: "digit_value (char_of (48 + k)) = Some k"
    using assms by (rule digit_value_char_of)
  have "digit_value CHR ''.'' = None" "digit_value CHR ''_'' = None"
    "digit_value CHR ''+'' = None" "digit_value CHR ''-'' = None"
    by (simp_all add: digit_value_def)
  with v show "char_of (48 + k) \<noteq> CHR ''.''" "char_of (48 + k) \<noteq> CHR ''_''"
    "char_of (48 + k) \<noteq> CHR ''+''" "char_of (48 + k) \<noteq> CHR ''-''"
    by auto
  have "\<And>c. py_isspace c \<Longrightarrow> digit_value c = None"
    by (auto simp: py_isspace_def digit_value_def)
  with v show "\<not> py_isspace (char_of (48 + k))" by fastforce
qed

lemma dec_char_char_of: "(k::nat) < 10 \<Longrightarrow> dec_char (char_of (48 + k))"
  by (simp add: dec_char_def is_digit_char_of char_of_digit_neq)

lemma decimal_chars: "c \<in> set (decimal n) \<Longrightarrow> dec_char c"
proof (induction n rule: decimal.induct)
  case (1 n)
  show ?case
  proof (cases "n < 10")
    case True
    with "1.prems" show ?thesis
      by (simp add: decimal.simps [of n] dec_char_char_of)
  next
    case False
    with "1.prems" "1.IH" show ?thesis
      by (auto simp: decimal.simps [of n] dec_char_char_of)
  qed
qed

lemma decimal_nonempty: "decimal n \<noteq> []"
  by (subst decimal.simps) simp

lemma digits_value_snoc:
  "digits_value base (ds @ [c]) =
     digits_value base ds * base + (case digit_value c of Some d \<Rightarrow> d | None \<Rightarrow> 0)"
  by (simp add: digits_value_def)

lemma digits_value_decimal: "digits_value 10 (decimal n) = n"
proof (induction n rule: decimal.induct)
  case (1 n)
  show ?case
  proof (cases "n < 10")
    case True
    then show ?thesis
      by (simp add: decimal.simps [of n] digits_value_def digit_value_char_of)
  next
    case False
    then have "digits_value 10 (decimal (n div 10)) = n div 10"
      using "1.IH" by simp
    with False show ?thesis
      by (simp add: decimal.simps [of n] digits_value_snoc digit_value_char_of)
  qed
qed

lemma decimal_inj: "decimal m = decimal n \<Longrightarrow> m = n"
  by (metis digits_value_decimal)

lemma no_double_underscore: "CHR ''_'' \<notin> set s \<Longrightarrow> \<not> double_underscore s"
  by (induction s rule: double_underscore.induct) auto

lemma py_int_digit_string:
  assumes ne: "s \<noteq> []" and all: "\<And>c. c \<in> set s \<Longrightarrow> dec_char c"
  shows "py_int 10 s = Some (int (digits_value 10 s))"
proof -
  obtain h t where ht: "s = h # t" using ne by (cases s) auto
  have h: "dec_char h" using all ht by simp
  have s1: "dropWhile py_isspace s = s"
    using h ht by (simp add: dec_char_def)
  have sign: "take (Suc 0) s \<noteq> ''+''" "take (Suc 0) s \<noteq> ''-''"
    using h ht by (auto simp: dec_char_def)
  have tw: "takeWhile (\<lambda>c. is_digit 10 c \<or> c = CHR ''_'') s = s"
    using all by (auto simp: dec_char_def takeWhile_eq_all_conv)
  have dw: "dropWhile (\<lambda>c. is_digit 10 c \<or> c = CHR ''_'') s = []"
    using all by (auto simp: dec_char_def)
  have us: "CHR ''_'' \<notin> set s" using all by (auto simp: dec_char_def)
  have fl: "filter (\<lambda>c. c \<noteq> CHR ''_'') s = s"
    using us by (auto simp: filter_id_conv)
  have hd: "hd s \<noteq> CHR ''_''" using h ht by (simp add: dec_char_def)
  have la: "last s \<noteq> CHR ''_''" using us ne last_in_set by metis
  have du: "\<not> double_underscore s" using us by (rule no_double_underscore)
  show ?thesis
    by (simp add: py_int_def Let_def s1 sign tw dw fl hd la ne du)
qed

lemma py_int_decimal: "py_int 10 (decimal n) = Some (int n)"
  using py_int_digit_string [OF decimal_nonempty decimal_chars, of n]
  by (simp add: digits_value_decimal)

lemma split_on_nonempty: "split_on c s \<noteq> []"
  by (induction s) (auto split: list.splits)

lemma split_on_no_sep: "c \<notin> set u \<Longrightarrow> split_on c u = [u]"
  by (induction u) auto

lemma split_on_field: "c \<notin> set u \<Longrightarrow> split_on c (u @ c # v) = u # split_on c v"
  by (induction u) auto

lemma dot_notin_decimal: "CHR ''.'' \<notin> set (decimal n)"
  using decimal_chars [of "CHR ''.''" n] by (auto simp: dec_char_def)

lemma split_dotted_quad:
  "split_on CHR ''.'' (dotted_quad a b c d) = [decimal a, decimal b, decimal c, decimal d]"
  by (simp add: dotted_quad_def split_on_field split_on_no_sep dot_notin_decimal)

lemma length_decimal: "Suc 0 \<le> length (decimal n)"
  using decimal_nonempty [of n] by (cases "decimal n") simp_all

lemma length_dotted_quad: "4 < length (dotted_quad a b c d)"
  using length_decimal [of a] length_decimal [of b] length_decimal [of c] length_decimal [of d]
  unfolding dotted_quad_def length_append by simp

lemma decimal_10: "decimal 10 = ''10''" by code_simp
lemma decimal_172: "decimal 172 = ''172''" by code_simp
lemma decimal_192: "decimal 192 = ''192''" by code_simp
lemma decimal_168: "decimal 168 = ''168''" by code_simp

lemma decimal_eq_iff:
  "decimal a = ''10'' \<longleftrightarrow> a = 10" "decimal a = ''172'' \<longleftrightarrow> a = 172"
  "decimal a = ''192'' \<longleftrightarrow> a = 192" "decimal a = ''168'' \<longleftrightarrow> a = 168"
  using decimal_inj [of a 10] decimal_inj [of a 172] decimal_inj [of a 192] decimal_inj [of a 168]
  by (auto simp: decimal_10 decimal_172 decimal_192 decimal_168)

lemma is_private_dotted_quad_all:
  "is_private (Str (dotted_quad a b c d)) = Inr (rfc1918 a b c d)"
  using length_dotted_quad [of a b c d]
  by (auto simp: is_private_def address_pairs_def bind_err_def classify_pairs_def item_def
      split_dotted_quad decimal_eq_iff py_int_decimal rfc1918_def)

subsection \<open>C6: is_private on well-formed dotted-quad addresses\<close>

text \<open>
  C6. For every well-formed dotted-quad address string (four octets below 256, each written
  as its decimal numeral), \<open>is_private\<close> returns without raising, and returns true
  exactly when the address lies in 10.0.0.0/8, in 172.16.0.0/12 (second octet 16 to 31) or
  in 192.168.0.0/16. The examples of the claim are in the witness: 8.8.8.8 and 172.15.0.1
  are not private, 172.16.0.1 is.
\<close>

theorem is_private_rfc1918:
  assumes "a < 256" and "b < 256" and "c < 256" and "d < 256"
  shows "is_private (Str (dotted_quad a b c d)) = Inr (rfc1918 a b c d)"
  by (rule is_private_dotted_quad_all)

theorem is_private_rfc1918_witness:
  "dotted_quad 8 8 8 8 = ''8.8.8.8'' \<and> is_private (Str ''8.8.8.8'') = Inr False \<and>
   dotted_quad 172 15 0 1 = ''172.15.0.1'' \<and> is_private (Str ''172.15.0.1'') = Inr False \<and>
   dotted_quad 172 16 0 1 = ''172.16.0.1'' \<and> is_private (Str ''172.16.0.1'') = Inr True"
proof -
  have q: "dotted_quad 8 8 8 8 = ''8.8.8.8''" "dotted_quad 172 15 0 1 = ''172.15.0.1''"
    "dotted_quad 172 16 0 1 = ''172.16.0.1''"
    by code_simp+
  have r: "rfc1918 8 8 8 8 = False" "rfc1918 172 15 0 1 = False" "rfc1918 172 16 0 1 = True"
    by (simp_all add: rfc1918_def)
  show ?thesis
    using is_private_rfc1918 [of 8 8 8 8] is_private_rfc1918 [of 172 15 0 1]
      is_private_rfc1918 [of 172 16 0 1]
    unfolding q r by simp
qed

subsection \<open>C8: is_private on short strings\<close>

text \<open>
  C8. For every address string of 1 to 3 characters, \<open>is_private\<close> raises
  (\<^verbatim>\<open>UnboundLocalError\<close>: no branch binds \<^verbatim>\<open>pairs\<close>) and returns no boolean. For every
  string of 4 characters or more, \<^verbatim>\<open>pairs\<close> is bound and the result is that of the
  classification statements on it.
\<close>

theorem is_private_short_string:
  "(1 \<le> length s \<and> length s \<le> 3 \<longrightarrow> is_private (Str s) = Inl UnboundLocalError) \<and>
   (4 \<le> length s \<longrightarrow>
      (\<exists>pairs. address_pairs (Str s) = Inr pairs \<and> is_private (Str s) = classify_pairs pairs))"
  by (auto simp: is_private_def address_pairs_def bind_err_def)

theorem is_private_short_string_witness:
  "is_private (Str ''172'') = Inl UnboundLocalError \<and>
   (\<exists>pairs. address_pairs (Str ''10.0.0.1'') = Inr pairs \<and>
      is_private (Str ''10.0.0.1'') = classify_pairs pairs)"
  using is_private_short_string [of "''172''"] is_private_short_string [of "''10.0.0.1''"]
  by simp

subsection \<open>C7: packet_size\<close>

lemma is_digit_16_hex_char: "is_digit 16 c \<Longrightarrow> hex_char c"
proof -
  assume d: "is_digit 16 c"
  have "\<not> is_digit 16 CHR ''_''" "\<not> is_digit 16 CHR ''+''" "\<not> is_digit 16 CHR ''-''"
    "\<not> is_digit 16 CHR ''x''" "\<not> is_digit 16 CHR ''X''"
    by (simp_all add: is_digit_def digit_value_def)
  moreover have "py_isspace c \<Longrightarrow> \<not> is_digit 16 c"
    by (auto simp: py_isspace_def is_digit_def digit_value_def)
  ultimately show ?thesis using d by (auto simp: hex_char_def)
qed

lemma py_int_hex_digits:
  assumes ne: "f \<noteq> []" and all: "\<forall>c\<in>set f. is_digit 16 c"
  shows "py_int 16 f = Some (int (digits_value 16 f))"
proof -
  have hx: "\<And>c. c \<in> set f \<Longrightarrow> hex_char c"
    using all is_digit_16_hex_char by blast
  obtain h t where ht: "f = h # t" using ne by (cases f) auto
  have h: "hex_char h" using hx ht by simp
  have s1: "dropWhile py_isspace f = f"
    using h ht by (simp add: hex_char_def)
  have sign: "take (Suc 0) f \<noteq> ''+''" "take (Suc 0) f \<noteq> ''-''"
    using h ht by (auto simp: hex_char_def)
  have pre: "take 2 f \<noteq> ''0x''" "take 2 f \<noteq> ''0X''"
  proof -
    have x: "CHR ''x'' \<notin> set f" "CHR ''X'' \<notin> set f"
      using hx by (auto simp: hex_char_def)
    have "take 2 f = ''0x'' \<Longrightarrow> CHR ''x'' \<in> set f"
      by (metis in_set_takeD list.set_intros(1) list.set_intros(2))
    moreover have "take 2 f = ''0X'' \<Longrightarrow> CHR ''X'' \<in> set f"
      by (metis in_set_takeD list.set_intros(1) list.set_intros(2))
    ultimately show "take 2 f \<noteq> ''0x''" "take 2 f \<noteq> ''0X''"
      using x by blast+
  qed
  have tw: "takeWhile (\<lambda>c. is_digit 16 c \<or> c = CHR ''_'') f = f"
    using all by (auto simp: takeWhile_eq_all_conv)
  have dw: "dropWhile (\<lambda>c. is_digit 16 c \<or> c = CHR ''_'') f = []"
    using all by auto
  have us: "CHR ''_'' \<notin> set f" using hx by (auto simp: hex_char_def)
  have fl: "filter (\<lambda>c. c \<noteq> CHR ''_'') f = f"
    using us by (auto simp: filter_id_conv)
  have hd: "hd f \<noteq> CHR ''_''" using h ht by (simp add: hex_char_def)
  have la: "last f \<noteq> CHR ''_''" using us ne last_in_set by metis
  have du: "\<not> double_underscore f" using us by (rule no_double_underscore)
  show ?thesis
    by (simp add: py_int_def Let_def s1 sign pre tw dw fl hd la ne du)
qed

lemma py_int_empty: "py_int base [] = None"
  by (simp add: py_int_def)

lemma packet_size_stamped:
  "packet_size (Stamped t h) = Inr (case py_int 16 (slice 32 36 h) of Some n \<Rightarrow> n | None \<Rightarrow> 0)"
  by (simp add: packet_size_def packet_item1_def bind_err_def)

lemma packet_size_hex:
  "packet_size (Hex s) = (if 2 \<le> length s then Inr 0 else Inl IndexError)"
  by (simp add: packet_size_def packet_item1_def bind_err_def item_def slice_def py_int_empty)

text \<open>
  C7 (as the code has it). For every \<^verbatim>\<open>(timestamp, hex string)\<close> pair, also one whose
  total-length field \<^verbatim>\<open>packet[1][32:36]\<close> is missing, truncated or not hexadecimal,
  \<open>packet_size\<close> does not raise: it returns the value of \<^verbatim>\<open>int(field, 16)\<close> when the field
  parses and 0 otherwise; a non-empty field of hexadecimal digits parses to its base-16
  value. A bare string is not such a pair: with at least two characters the result is 0
  whatever the string holds, and with fewer the call raises \<^verbatim>\<open>IndexError\<close>.
\<close>

theorem packet_size_never_raises_on_pairs:
  "(\<exists>n. packet_size (Stamped t h) = Inr n) \<and>
   (\<forall>v. py_int 16 (slice 32 36 h) = Some v \<longrightarrow> packet_size (Stamped t h) = Inr v) \<and>
   (py_int 16 (slice 32 36 h) = None \<longrightarrow> packet_size (Stamped t h) = Inr 0) \<and>
   (slice 32 36 h \<noteq> [] \<and> (\<forall>c\<in>set (slice 32 36 h). is_digit 16 c) \<longrightarrow>
      packet_size (Stamped t h) = Inr (int (digits_value 16 (slice 32 36 h)))) \<and>
   (2 \<le> length s \<longrightarrow> packet_size (Hex s :: 't packet_arg) = Inr 0) \<and>
   (length s < 2 \<longrightarrow> packet_size (Hex s :: 't packet_arg) = Inl IndexError)"
  using py_int_hex_digits [of "slice 32 36 h"]
  by (auto simp: packet_size_stamped packet_size_hex)

theorem packet_size_never_raises_on_pairs_witness:
  "packet_size (Stamped (0::nat) tcp_packet) = Inr 40 \<and>
   packet_size (Stamped (0::nat) ''0800'') = Inr 0 \<and>
   packet_size (Stamped (0::nat) malformed_packet) = Inr 0 \<and>
   packet_size (Hex tcp_packet :: nat packet_arg) = Inr 0 \<and>
   packet_size (Hex ''0'' :: nat packet_arg) = Inl IndexError"
proof -
  have f: "slice 32 36 tcp_packet = ''0028''"
    by (simp add: tcp_packet_def slice_def)
  have g: "slice 32 36 ''0800'' = []"
    by (simp add: slice_def)
  have z: "slice 32 36 malformed_packet = ''zz''"
    by (simp add: malformed_packet_def slice_def)
  have d: "''0028'' \<noteq> [] \<and> (\<forall>c\<in>set ''0028''. is_digit 16 c)"
    by (simp add: is_digit_def digit_value_def)
  have v: "int (digits_value 16 ''0028'') = 40"
    by (simp add: digits_value_def digit_value_def)
  have n: "py_int 16 ''zz'' = None"
    by (simp add: py_int_def is_digit_def digit_value_def py_isspace_def)
  have l: "2 \<le> length tcp_packet" "length ''0'' < 2"
    by (simp_all add: tcp_packet_def)
  have 1: "packet_size (Stamped (0::nat) tcp_packet) = Inr 40"
    using packet_size_never_raises_on_pairs [of "0::nat" tcp_packet tcp_packet] d
    unfolding f v by blast
  have 2: "packet_size (Stamped (0::nat) ''0800'') = Inr 0"
    using packet_size_never_raises_on_pairs [of "0::nat" "''0800''" tcp_packet] py_int_empty [of 16]
    unfolding g by blast
  have 3: "packet_size (Stamped (0::nat) malformed_packet) = Inr 0"
    using packet_size_never_raises_on_pairs [of "0::nat" malformed_packet tcp_packet] n
    unfolding z by blast
  have 4: "packet_size (Hex tcp_packet :: nat packet_arg) = Inr 0"
    using packet_size_never_raises_on_pairs [of "0::nat" tcp_packet tcp_packet] l(1)
    by blast
  have 5: "packet_size (Hex ''0'' :: nat packet_arg) = Inl IndexError"
    using packet_size_never_raises_on_pairs [of "0::nat" tcp_packet "''0''"] l(2)
    by blast
  from 1 2 3 4 5 show ?thesis by blast
qed

text \<open>
  The claim fails on bare hex strings: for the empty string \<^verbatim>\<open>packet[1]\<close>, which is
  evaluated outside the \<^verbatim>\<open>try\<close>, raises \<^verbatim>\<open>IndexError\<close>; and for the hex string of the
  TCP packet, whose total-length field \<^verbatim>\<open>0028\<close> parses to 40, the result is 0.
\<close>

theorem packet_size_bare_string_counterexample:
  "packet_size (Hex '''' :: nat packet_arg) = Inl IndexError \<and>
   py_int 16 (slice 32 36 tcp_packet) = Some 40 \<and>
   packet_size (Hex tcp_packet :: nat packet_arg) = Inr 0"
proof -
  have f: "slice 32 36 tcp_packet = ''0028''"
    by (simp add: tcp_packet_def slice_def)
  have "py_int 16 ''0028'' = Some 40"
    using py_int_hex_digits [of "''0028''"]
    by (simp add: is_digit_def digit_value_def digits_value_def)
  moreover have "2 \<le> length tcp_packet"
    by (simp add: tcp_packet_def)
  ultimately show ?thesis
    by (simp add: packet_size_hex f)
qed

subsection \<open>C3: the empty session mapping\<close>

lemma replicate_4: "replicate 4 x = [x, x, x, x]"
  by (simp add: numeral_eq_Suc)

lemma replicate_double_4:
  "replicate (2 * n + 4) x = replicate n x @ replicate n x @ [x, x, x, x]"
proof -
  have "replicate (2 * n + 4) x = replicate (n + (n + 4)) x"
    by (simp only: mult_2 add.assoc)
  also have "\<dots> = replicate n x @ replicate n x @ replicate 4 x"
    by (simp only: replicate_add)
  finally show ?thesis by (simp only: replicate_4)
qed

lemma feature_vector_init:
  "feature_vector (init_aggregate max_port) = replicate (2 * nat max_port + 4) 0"
  unfolding replicate_double_4
  by (simp add: feature_vector_def init_aggregate_def)

lemma get_source_empty: "get_source [] = Inr NoSource"
  by (simp add: get_source_def bind_err_def)

lemma extract_features_empty:
  "extract_features [] None max_port = Inr (replicate (2 * nat max_port + 4) 0, NoSource, [])"
proof -
  have o: "other_ips (init_aggregate max_port) = []"
    by (simp add: init_aggregate_def)
  show ?thesis
    unfolding extract_features_def resolve_source_def
    by (simp only: option.case get_source_empty bind_err_def sum.case scan_sessions.simps
        feature_vector_init o list.map)
qed

text \<open>
  C3 (as the code has it). For the empty session mapping, with no capture source given
  and any \<open>max_port\<close>, \<open>extract_features\<close> returns an all-zero vector of length
  \<open>2 * max_port + 4\<close> (a negative \<open>max_port\<close> counting as 0) and an empty list of peers.
  The capture source it returns is the value of the early return of \<open>get_source\<close> for an
  empty mapping, which is not the string \<^verbatim>\<open>'00:00:00:00:00:00'\<close>.
\<close>

theorem extract_features_empty_mapping:
  "extract_features [] None max_port = Inr (replicate (2 * nat max_port + 4) 0, NoSource, []) \<and>
   get_source [] = Inr NoSource \<and> NoSource \<noteq> Mac ''00:00:00:00:00:00''"
  by (simp only: extract_features_empty get_source_empty capture_source.distinct simp_thms)

text \<open>
  With the default \<open>max_port = 1024\<close> the capture source of the result is not the sentinel
  string. With \<open>max_port = -1\<close> the two histograms are empty (\<^verbatim>\<open>[0]*-1\<close> is \<^verbatim>\<open>[]\<close>) and
  the vector has the four fractions only: its length is 4, not \<open>2 * (-1) + 4 = 2\<close>.
\<close>

theorem extract_features_empty_counterexample:
  "extract_features ([] :: nat sessions) None 1024 =
     Inr (replicate (2 * nat 1024 + 4) 0, NoSource, []) \<and>
   NoSource \<noteq> Mac ''00:00:00:00:00:00'' \<and>
   extract_features ([] :: nat sessions) None (- 1) = Inr ([0, 0, 0, 0], NoSource, [])"
proof -
  have "replicate (2 * nat (- 1) + 4) (0::rat) = [0, 0, 0, 0]"
    by (simp add: replicate_4)
  with extract_features_empty [of "- 1", where ?'a = nat]
  have "extract_features ([] :: nat sessions) None (- 1) = Inr ([0, 0, 0, 0], NoSource, [])"
    by simp
  then show ?thesis
    by (simp only: extract_features_empty capture_source.distinct simp_thms)
qed

subsection \<open>The two-session scenario, evaluated\<close>

lemma scenario_macs:
  "extract_macs tcp_packet = (''aa:aa:aa:aa:aa:aa'', ''bb:bb:bb:bb:bb:bb'')"
  "extract_macs udp_packet = (''aa:aa:aa:aa:aa:aa'', ''cc:cc:cc:cc:cc:cc'')"
  by (simp_all add: extract_macs_def tcp_packet_def udp_packet_def slice_def)

lemma scenario_keys:
  "split_on CHR '':'' ''192.168.1.5:80'' = [''192.168.1.5'', ''80'']"
  "split_on CHR '':'' ''192.168.1.10:4000'' = [''192.168.1.10'', ''4000'']"
  "split_on CHR '':'' ''192.168.1.5:5353'' = [''192.168.1.5'', ''5353'']"
  "split_on CHR '':'' ''192.168.1.11:53'' = [''192.168.1.11'', ''53'']"
  by simp_all

lemma scenario_privates:
  "is_private (Str ''192.168.1.5'') = Inr True"
  "is_private (Str ''192.168.1.10'') = Inr True"
  "is_private (Str ''192.168.1.11'') = Inr True"
  by (simp_all add: is_private_def address_pairs_def classify_pairs_def item_def bind_err_def)

lemma scenario_digit_values:
  "digit_value CHR ''0'' = Some 0" "digit_value CHR ''3'' = Some 3"
  "digit_value CHR ''4'' = Some 4" "digit_value CHR ''5'' = Some 5"
  "digit_value CHR ''8'' = Some 8"
  by (simp_all add: digit_value_def)

lemma scenario_ports:
  "int_of_str ''80'' = Inr 80" "int_of_str ''4000'' = Inr 4000"
  "int_of_str ''5353'' = Inr 5353" "int_of_str ''53'' = Inr 53"
  by (simp_all add: int_of_str_def py_int_def py_isspace_def is_digit_def scenario_digit_values
      digits_value_def)

lemma scenario_py_ints: "py_int 10 ''80'' = Some 80" "py_int 10 ''5353'' = Some 5353"
  using scenario_ports by (simp_all add: int_of_str_def split: option.splits)

lemma scenario_protocols:
  "is_protocol [(t, tcp_packet)] ''06'' = Inr True"
  "is_protocol [(t, tcp_packet)] ''11'' = Inr False"
  "is_protocol [(t, tcp_packet)] ''01'' = Inr False"
  "is_protocol [(t, udp_packet)] ''06'' = Inr False"
  "is_protocol [(t, udp_packet)] ''11'' = Inr True"
  "is_protocol [(t, udp_packet)] ''01'' = Inr False"
  by (simp_all add: is_protocol_def extract_protocol_def first_packet_def item_def bind_err_def
      tcp_packet_def udp_packet_def slice_def)

lemma scenario_externals:
  "is_external ''192.168.1.5'' ''192.168.1.10'' = True"
  "is_external ''192.168.1.5'' ''192.168.1.11'' = True"
  by (simp_all add: is_external_def slice_def)

lemma first_packet_single: "first_packet [(t, p)] = Inr p"
  by (simp add: first_packet_def item_def bind_err_Inr)

lemma bump_at_in_range:
  "0 \<le> i \<Longrightarrow> i < int (length xs) \<Longrightarrow> bump_at xs i = Inr (xs[nat i := xs ! nat i + 1])"
  by (simp add: bump_at_def Let_def)

lemma scan_two_sessions:
  assumes "80 < max_port" and "max_port \<le> 4000"
  shows "scan_sessions (Mac ''aa:aa:aa:aa:aa:aa'') max_port (init_aggregate max_port) two_sessions
           = Inr (scenario_aggregate max_port)"
  using assms
  by (simp add: two_sessions_def scan_session_def source_side_def destination_side_def Let_def
      unpack2_def scenario_keys first_packet_single scenario_macs scenario_privates
      scenario_protocols scenario_externals scenario_ports bind_err_Inr bump_at_in_range
      init_aggregate_def scenario_aggregate_def del: split_on.simps)

lemma count_two_sessions:
  "count_sessions empty_counters two_sessions =
     Inr \<lparr>all_ips = [(''192.168.1.10'', 1), (''192.168.1.5'', 2), (''192.168.1.11'', 1)],
          all_macs = [(''aa:aa:aa:aa:aa:aa'', 2), (''bb:bb:bb:bb:bb:bb'', 1),
                      (''cc:cc:cc:cc:cc:cc'', 1)],
          incoming_ips = [(''192.168.1.10'', 1), (''192.168.1.11'', 1)],
          incoming_macs = [(''aa:aa:aa:aa:aa:aa'', 2)],
          outgoing_ips = [(''192.168.1.5'', 2), (''bb:bb:bb:bb:bb:bb'', 1),
                          (''cc:cc:cc:cc:cc:cc'', 1)],
          outgoing_macs = []\<rparr>"
  by (simp add: two_sessions_def count_session_def Let_def item_def scenario_keys
      first_packet_single scenario_macs scenario_privates bind_err_Inr empty_counters_def
      del: split_on.simps)

lemma get_source_two_sessions: "get_source two_sessions = Inr (Mac ''aa:aa:aa:aa:aa:aa'')"
proof -
  have l: "two_sessions \<noteq> []" by (simp add: two_sessions_def)
  show ?thesis
    by (simp add: get_source_def count_two_sessions bind_err_Inr l Let_def sorted_desc_def
        count_of_def)
qed

lemma feature_vector_scenario: "feature_vector (scenario_aggregate 1024) = scenario_vector"
  by (simp add: feature_vector_def scenario_aggregate_def scenario_vector_def map_update)

lemma extract_features_two_sessions:
  "extract_features two_sessions None 1024 =
     Inr (scenario_vector, Mac ''aa:aa:aa:aa:aa:aa'', [''192.168.1.10'', ''192.168.1.11''])"
proof -
  have s: "scan_sessions (Mac ''aa:aa:aa:aa:aa:aa'') 1024 (init_aggregate 1024) two_sessions
             = Inr (scenario_aggregate 1024)"
    by (rule scan_two_sessions) simp_all
  have o: "map fst (other_ips (scenario_aggregate 1024)) = [''192.168.1.10'', ''192.168.1.11'']"
    by (simp add: scenario_aggregate_def)
  show ?thesis
    unfolding extract_features_def resolve_source_def
    by (simp only: option.case get_source_two_sessions bind_err_Inr s feature_vector_scenario o)
qed

lemma scenario_vector_entries:
  "length scenario_vector = 2052" "scenario_vector ! 80 = 1 / 2"
  "scenario_vector ! 2048 = 1" "scenario_vector ! 2049 = 1 / 2"
  "scenario_vector ! 2050 = 1 / 2" "scenario_vector ! 2051 = 0"
  by (simp_all add: scenario_vector_def nth_append)

lemma scenario_vector_destination:
  "take 1024 (drop 1024 scenario_vector) = (replicate 1024 0)[53 := 1 / 2]"
  by (simp add: scenario_vector_def)

subsection \<open>The counts of the loop of extract_features\<close>

lemma sum_list_bump: "i < length xs \<Longrightarrow> sum_list (xs[i := xs ! i + d]) = sum_list xs + (d::int)"
proof (induction xs arbitrary: i)
  case Nil
  then show ?case by simp
next
  case (Cons x xs)
  then show ?case by (cases i) simp_all
qed

lemma bump_at_sum: "bump_at xs i = Inr ys \<Longrightarrow> sum_list ys = sum_list xs + 1"
  by (auto simp: bump_at_def Let_def sum_list_bump split: if_splits)

lemma int_of_str_Inr: "int_of_str s = Inr n \<longleftrightarrow> py_int 10 s = Some n"
  by (simp add: int_of_str_def split: option.splits)

lemma source_side_counts:
  assumes "source_side max_port a session address_1 port_1 address_2 port_2 = Inr a'"
  shows "\<exists>p. py_int 10 port_1 = Some p \<and>
           sum_list (num_source_sess a') = sum_list (num_source_sess a) + of_bool (p < max_port) \<and>
           num_sessions a' = num_sessions a + 1"
proof -
  from assms obtain p1 src where
    p1: "int_of_str port_1 = Inr p1"
    and src: "(if p1 < max_port then bump_at (num_source_sess a) p1
               else Inr (num_source_sess a)) = Inr src"
    and a': "num_source_sess a' = src" "num_sessions a' = num_sessions a + 1"
    by (auto simp: source_side_def Let_def bind_err_Inr_iff cong: if_cong)
  have "sum_list src = sum_list (num_source_sess a) + of_bool (p1 < max_port)"
  proof (cases "p1 < max_port")
    case True
    with src show ?thesis by (simp add: bump_at_sum)
  next
    case False
    with src show ?thesis by simp
  qed
  with p1 a' show ?thesis by (simp add: int_of_str_Inr)
qed

lemma first_packet_Inr: "first_packet session = Inr packet \<longleftrightarrow> (\<exists>p r. session = p # r \<and> snd p = packet)"
  by (cases session) (auto simp: first_packet_def bind_err_def item_def)

lemma destination_side_counts:
  assumes "(if c then destination_side a5 address_1 else Inr a5) = Inr a'"
  shows "num_source_sess a' = num_source_sess a5 \<and> num_sessions a' = num_sessions a5"
proof (cases c)
  case True
  with assms show ?thesis by (auto simp: destination_side_def bind_err_Inr_iff)
next
  case False
  with assms show ?thesis by simp
qed

lemma scan_session_counts:
  assumes "scan_session source max_port a ks = Inr a'"
  shows "sum_list (num_source_sess a') =
           sum_list (num_source_sess a)
           + (if source_matches source (snd ks) \<and> port_below max_port (fst ks) then 1 else 0) \<and>
         num_sessions a' = num_sessions a + (if source_matches source (snd ks) then 1 else 0) \<and>
         (source_matches source (snd ks) \<longrightarrow> source_port (fst ks) \<noteq> None)"
proof -
  from assms obtain ap1 ap2 packet a5 where
    ap1: "unpack2 (split_on CHR '':'' (fst (fst ks))) = Inr ap1"
    and packet: "first_packet (snd ks) = Inr packet"
    and a5: "(if Mac (fst (extract_macs packet)) = source
              then source_side max_port a (snd ks) (fst ap1) (snd ap1) (fst ap2) (snd ap2)
              else Inr a) = Inr a5"
    and fin: "(if Mac (snd (extract_macs packet)) = source
              then destination_side a5 (fst ap1) else Inr a5) = Inr a'"
    unfolding scan_session_def Let_def bind_err_Inr_iff by blast
  note a' = destination_side_counts [OF fin]
  have m: "source_matches source (snd ks) \<longleftrightarrow> Mac (fst (extract_macs packet)) = source"
    using packet by (auto simp: first_packet_Inr source_matches_def)
  show ?thesis
  proof (cases "Mac (fst (extract_macs packet)) = source")
    case True
    with a5 have "source_side max_port a (snd ks) (fst ap1) (snd ap1) (fst ap2) (snd ap2) = Inr a5"
      by simp
    from source_side_counts [OF this] obtain p where p: "py_int 10 (snd ap1) = Some p"
      "sum_list (num_source_sess a5) = sum_list (num_source_sess a) + of_bool (p < max_port)"
      "num_sessions a5 = num_sessions a + 1"
      by blast
    from p(1) ap1 have sp: "source_port (fst ks) = Some p"
      by (simp add: source_port_def)
    then have "port_below max_port (fst ks) \<longleftrightarrow> p < max_port"
      by (simp add: port_below_def)
    with p True m a' sp show ?thesis by simp
  next
    case False
    with a5 have "a5 = a" by simp
    with False m a' show ?thesis by simp
  qed
qed

lemma scan_sessions_counts:
  "scan_sessions source max_port a session_dict = Inr a' \<Longrightarrow>
     sum_list (num_source_sess a') =
       sum_list (num_source_sess a) + int (length (matching_binned source max_port session_dict)) \<and>
     num_sessions a' = num_sessions a + int (length (matching source session_dict)) \<and>
     (\<forall>ks\<in>set (matching source session_dict). source_port (fst ks) \<noteq> None)"
proof (induction session_dict arbitrary: a)
  case Nil
  then show ?case by (simp add: matching_binned_def matching_def)
next
  case (Cons ks rest)
  from Cons.prems obtain a1 where
    step: "scan_session source max_port a ks = Inr a1"
    and rest: "scan_sessions source max_port a1 rest = Inr a'"
    by (auto simp: bind_err_Inr_iff)
  note s = scan_session_counts [OF step] and r = Cons.IH [OF rest]
  show ?case
  proof (cases "source_matches source (snd ks)")
    case True
    then show ?thesis using s r
      by (cases "port_below max_port (fst ks)") (simp_all add: matching_binned_def matching_def)
  next
    case False
    then show ?thesis using s r by (simp add: matching_binned_def matching_def)
  qed
qed

lemma length_matching_split:
  assumes "\<forall>ks\<in>set (matching source session_dict). source_port (fst ks) \<noteq> None"
  shows "length (matching source session_dict) =
     length (matching_binned source max_port session_dict)
     + length (matching_unbinned source max_port session_dict)"
proof -
  have "filter (\<lambda>ks. port_at_least max_port (fst ks)) (matching source session_dict) =
        filter (\<lambda>ks. \<not> port_below max_port (fst ks)) (matching source session_dict)"
    using assms
    by (intro filter_cong refl) (auto simp: port_at_least_def port_below_def split: option.splits)
  then show ?thesis
    unfolding matching_binned_def matching_unbinned_def
    by (simp add: sum_length_filter_compl)
qed

lemma sum_list_init: "sum_list (num_source_sess (init_aggregate max_port)) = 0"
  "num_sessions (init_aggregate max_port) = 0"
  by (simp_all add: init_aggregate_def sum_list_replicate)

subsection \<open>C2: the two-session scenario\<close>

text \<open>
  C2 (as the code has it). For the two-session scenario, \<open>get_source\<close> returns
  aa:aa:aa:aa:aa:aa, and \<open>extract_features\<close> with \<open>max_port = 1024\<close> returns a vector of
  length 2052 with bin 80 of the source histogram equal to 1/2, the TCP fraction 1/2, the
  UDP fraction 1/2, the ICMP fraction 0, and the external fraction 1 (both sessions join
  addresses with the same three-character prefix, for which \<open>is_external\<close> is true). The
  destination histogram has bin 53 only: port 4000 gets no bin, and its session is counted
  in the divisor 2.
\<close>

theorem two_session_scenario:
  "get_source two_sessions = Inr (Mac ''aa:aa:aa:aa:aa:aa'') \<and>
   extract_features two_sessions None 1024 =
     Inr (scenario_vector, Mac ''aa:aa:aa:aa:aa:aa'', [''192.168.1.10'', ''192.168.1.11'']) \<and>
   length scenario_vector = 2 * 1024 + 4 \<and>
   scenario_vector ! 80 = 1 / 2 \<and>
   take 1024 (drop 1024 scenario_vector) = (replicate 1024 0)[53 := 1 / 2] \<and>
   scenario_vector ! (2 * 1024) = 1 \<and>
   scenario_vector ! (2 * 1024 + 1) = 1 / 2 \<and>
   scenario_vector ! (2 * 1024 + 2) = 1 / 2 \<and>
   scenario_vector ! (2 * 1024 + 3) = 0"
  by (simp add: get_source_two_sessions extract_features_two_sessions scenario_vector_entries
      scenario_vector_destination)

text \<open>
  The claim gives the external fraction as 0: the entry at index \<open>2 * max_port\<close> of the
  vector is not 0.
\<close>

theorem two_session_scenario_counterexample:
  "extract_features two_sessions None 1024 =
     Inr (scenario_vector, Mac ''aa:aa:aa:aa:aa:aa'', [''192.168.1.10'', ''192.168.1.11'']) \<and>
   scenario_vector ! (2 * 1024) \<noteq> 0"
  by (simp add: extract_features_two_sessions scenario_vector_entries)

subsection \<open>The counts of the loop of get_source\<close>

lemma item_split_on_0: "item (split_on c s) 0 = Inr (takeWhile (\<lambda>x. x \<noteq> c) s)"
proof (induction s)
  case Nil
  then show ?case by (simp add: item_def)
next
  case (Cons x xs)
  then show ?case
    by (cases "split_on c xs") (auto simp: item_def split: if_splits)
qed

lemma keys_incr:
  "map fst (incr k d) = (if k \<in> set (map fst d) then map fst d else map fst d @ [k])"
proof (induction d)
  case Nil
  then show ?case by simp
next
  case (Cons kv d)
  obtain k' v where kv: "kv = (k', v)" by (cases kv)
  show ?case
  proof (cases "k = k'")
    case True
    then show ?thesis by (simp add: kv)
  next
    case False
    with Cons.IH show ?thesis by (simp add: kv)
  qed
qed

lemma count_of_incr: "count_of (incr k d) k' = count_of d k' + (if k = k' then 1 else 0)"
  by (induction d) (auto simp: count_of_def)

lemma count_of_fold_incr:
  "count_of (fold incr xs d) k = count_of d k + int (count_list xs k)"
  by (induction xs arbitrary: d) (auto simp: count_of_incr)

lemma keys_fold_incr_set: "set (map fst (fold incr xs d)) = set (map fst d) \<union> set xs"
proof (induction xs arbitrary: d)
  case Nil
  then show ?case by simp
next
  case (Cons x xs)
  have "set (map fst (incr x d)) = insert x (set (map fst d))"
    by (auto simp: keys_incr)
  with Cons.IH [of "incr x d"] show ?case by auto
qed

lemma takeWhile_absorb:
  assumes "x \<in> set K"
  shows "set (takeWhile P (K @ x # xs)) \<subseteq> set (takeWhile P (K @ xs))"
proof (cases "\<forall>k\<in>set K. P k")
  case True
  then have "takeWhile P (K @ x # xs) = K @ takeWhile P (x # xs)"
    "takeWhile P (K @ xs) = K @ takeWhile P xs"
    by (simp_all add: takeWhile_append2)
  moreover have "P x" using True assms by blast
  ultimately show ?thesis using assms by auto
next
  case False
  then obtain k where "k \<in> set K" "\<not> P k" by blast
  then have "takeWhile P (K @ x # xs) = takeWhile P K" "takeWhile P (K @ xs) = takeWhile P K"
    by (simp_all add: takeWhile_append1)
  then show ?thesis by simp
qed

lemma keys_fold_incr_order:
  "m' \<in> set (takeWhile P (map fst d @ xs)) \<Longrightarrow>
     m' \<in> set (takeWhile P (map fst (fold incr xs d)))"
proof (induction xs arbitrary: d)
  case Nil
  then show ?case by simp
next
  case (Cons x xs)
  have "m' \<in> set (takeWhile P (map fst (incr x d) @ xs))"
  proof (cases "x \<in> set (map fst d)")
    case True
    then have "map fst (incr x d) = map fst d" by (simp add: keys_incr)
    with takeWhile_absorb [OF True, of P xs] Cons.prems show ?thesis by auto
  next
    case False
    then have "map fst (incr x d) @ xs = map fst d @ x # xs" by (simp add: keys_incr)
    with Cons.prems show ?thesis by simp
  qed
  from Cons.IH [OF this] show ?case by simp
qed

lemma sorted_desc_first:
  assumes "keys \<noteq> []" and h_def: "h = sorted_desc f keys ! 0"
  shows "h \<in> set keys" and "\<forall>k\<in>set keys. f k \<le> f h"
    and "\<forall>k\<in>set (takeWhile (\<lambda>x. x \<noteq> h) keys). f k \<noteq> f h"
proof -
  let ?g = "\<lambda>x. - f x"
  let ?S = "sort_key ?g keys"
  have ne: "?S \<noteq> []" using assms(1) by (metis length_0_conv length_sort)
  then obtain T where S: "?S = h # T"
    unfolding h_def sorted_desc_def by (cases ?S) auto
  have "set ?S = set keys" by simp
  with S show mem: "h \<in> set keys" by (metis list.set_intros(1))
  have "sorted (map ?g ?S)" by (rule sorted_sort_key)
  with S have "\<forall>k\<in>set T. ?g h \<le> ?g k" by simp
  with S \<open>set ?S = set keys\<close> show "\<forall>k\<in>set keys. f k \<le> f h"
    by (metis insert_iff list.simps(15) neg_le_iff_le order_refl)
  have st: "filter (\<lambda>y. ?g y = ?g h) keys = filter (\<lambda>y. ?g y = ?g h) ?S"
    by (rule sort_key_stable [symmetric])
  have hdf: "hd (filter (\<lambda>y. ?g y = ?g h) keys) = h"
    unfolding st S by simp
  show "\<forall>k\<in>set (takeWhile (\<lambda>x. x \<noteq> h) keys). f k \<noteq> f h"
  proof (intro ballI notI)
    fix k assume k: "k \<in> set (takeWhile (\<lambda>x. x \<noteq> h) keys)" and eq: "f k = f h"
    let ?A = "takeWhile (\<lambda>x. x \<noteq> h) keys" and ?B = "dropWhile (\<lambda>x. x \<noteq> h) keys"
    have "filter (\<lambda>y. ?g y = ?g h) keys
            = filter (\<lambda>y. ?g y = ?g h) ?A @ filter (\<lambda>y. ?g y = ?g h) ?B"
      by (metis filter_append takeWhile_dropWhile_id)
    moreover have fa: "filter (\<lambda>y. ?g y = ?g h) ?A \<noteq> []"
      using k eq by (auto simp: filter_empty_conv)
    ultimately have "hd (filter (\<lambda>y. ?g y = ?g h) keys) = hd (filter (\<lambda>y. ?g y = ?g h) ?A)"
      by simp
    moreover have "hd (filter (\<lambda>y. ?g y = ?g h) ?A) \<in> set ?A"
      using fa by (metis filter_is_subset hd_in_set subsetD)
    ultimately have "h \<in> set ?A" using hdf by simp
    then show False by (auto dest: set_takeWhileD)
  qed
qed

lemma count_session_unfold:
  "count_session c ks =
     bind_err (first_packet (snd ks)) (\<lambda>packet.
     bind_err (is_private (Str (address_of (snd (fst ks))))) (\<lambda>private_in.
     bind_err (if private_in then is_private (Str (address_of (fst (fst ks)))) else Inr False)
       (\<lambda>both.
     if both
     then Inr (c\<lparr>all_ips := incr (address_of (fst (fst ks)))
                             (incr (address_of (snd (fst ks))) (all_ips c)),
                 all_macs := incr (snd (extract_macs packet))
                              (incr (fst (extract_macs packet)) (all_macs c)),
                 incoming_ips := incr (address_of (snd (fst ks))) (incoming_ips c),
                 incoming_macs := incr (fst (extract_macs packet)) (incoming_macs c),
                 outgoing_ips := incr (snd (extract_macs packet))
                                  (incr (address_of (fst (fst ks))) (outgoing_ips c))\<rparr>)
     else Inr c)))"
  unfolding count_session_def Let_def item_split_on_0 bind_err_Inr address_of_def ..

lemma count_session_macs:
  assumes "count_session c ks = Inr c1"
  shows "snd ks \<noteq> [] \<and>
         all_macs c1 =
           fold incr (if both_private (fst ks) then session_macs (snd ks) else []) (all_macs c)"
proof -
  let ?in = "is_private (Str (address_of (snd (fst ks))))"
  let ?out = "is_private (Str (address_of (fst (fst ks))))"
  obtain packet where packet: "first_packet (snd ks) = Inr packet"
    using assms by (cases "first_packet (snd ks)") (simp_all add: count_session_unfold bind_err_def)
  then obtain p r where session: "snd ks = p # r" "snd p = packet"
    by (auto simp: first_packet_Inr)
  obtain private_in where private_in: "?in = Inr private_in"
    using assms packet by (cases ?in) (simp_all add: count_session_unfold bind_err_def)
  show ?thesis
  proof (cases private_in)
    case False
    with assms packet private_in have "c1 = c"
      by (simp add: count_session_unfold bind_err_Inr)
    moreover have "\<not> both_private (fst ks)"
      using False private_in by (simp add: both_private_def)
    ultimately show ?thesis using session by simp
  next
    case True
    obtain private_out where private_out: "?out = Inr private_out"
      using assms packet private_in True
      by (cases ?out) (simp_all add: count_session_unfold bind_err_def)
    have bp: "both_private (fst ks) \<longleftrightarrow> private_out"
      using True private_in private_out by (simp add: both_private_def)
    show ?thesis
    proof (cases private_out)
      case True
      with assms packet private_in \<open>private_in\<close> private_out
      have "Inr (c\<lparr>all_ips := incr (address_of (fst (fst ks)))
                             (incr (address_of (snd (fst ks))) (all_ips c)),
                 all_macs := incr (snd (extract_macs packet))
                              (incr (fst (extract_macs packet)) (all_macs c)),
                 incoming_ips := incr (address_of (snd (fst ks))) (incoming_ips c),
                 incoming_macs := incr (fst (extract_macs packet)) (incoming_macs c),
                 outgoing_ips := incr (snd (extract_macs packet))
                                  (incr (address_of (fst (fst ks))) (outgoing_ips c))\<rparr>)
              = (Inr c1 :: py_error + counters)"
        by (simp add: count_session_unfold bind_err_Inr)
      then have "all_macs c1 = incr (snd (extract_macs packet))
                    (incr (fst (extract_macs packet)) (all_macs c))"
        by auto
      with True bp session show ?thesis by (simp add: session_macs_def)
    next
      case False
      with assms packet private_in \<open>private_in\<close> private_out have "c1 = c"
        by (simp add: count_session_unfold bind_err_Inr)
      with False bp session show ?thesis by simp
    qed
  qed
qed

lemma mac_occurrences_Cons:
  "mac_occurrences (ks # rest) =
     (if both_private (fst ks) then session_macs (snd ks) else []) @ mac_occurrences rest"
  by (simp add: mac_occurrences_def)

lemma count_sessions_macs:
  "count_sessions c session_dict = Inr c' \<Longrightarrow>
     (\<forall>ks\<in>set session_dict. snd ks \<noteq> []) \<and>
     all_macs c' = fold incr (mac_occurrences session_dict) (all_macs c)"
proof (induction session_dict arbitrary: c)
  case Nil
  then show ?case by (simp add: mac_occurrences_def)
next
  case (Cons ks rest)
  obtain c1 where step: "count_session c ks = Inr c1"
    using Cons.prems by (cases "count_session c ks") (simp_all add: bind_err_def)
  with Cons.prems have rest: "count_sessions c1 rest = Inr c'"
    by (simp add: bind_err_Inr)
  from count_session_macs [OF step] Cons.IH [OF rest] show ?case
    by (simp add: mac_occurrences_Cons)
qed

lemma mac_occurrences_nonempty:
  assumes "\<forall>ks\<in>set session_dict. snd ks \<noteq> []"
    and "\<exists>ks\<in>set session_dict. both_private (fst ks)"
  shows "mac_occurrences session_dict \<noteq> []"
proof -
  from assms obtain ks where ks: "ks \<in> set session_dict" "both_private (fst ks)" "snd ks \<noteq> []"
    by blast
  then have "session_macs (snd ks) \<noteq> []"
    by (cases "snd ks") (simp_all add: session_macs_def)
  moreover have "session_macs (snd ks)
      \<in> set (map (\<lambda>ks. session_macs (snd ks))
                (filter (\<lambda>ks. both_private (fst ks)) session_dict))"
    unfolding set_map using ks by (intro imageI) simp
  ultimately show ?thesis
    unfolding mac_occurrences_def concat_eq_Nil_conv by blast
qed

subsection \<open>Returning on well-formed mappings\<close>

lemma ascii_digit_dec_char: "ascii_digit c \<Longrightarrow> dec_char c"
proof -
  assume a: "ascii_digit c"
  then have d: "is_digit 10 c"
    by (auto simp: ascii_digit_def is_digit_def digit_value_def Let_def)
  have "\<not> ascii_digit CHR ''.''" "\<not> ascii_digit CHR ''_''" "\<not> ascii_digit CHR ''+''"
    "\<not> ascii_digit CHR ''-''"
    by (simp_all add: ascii_digit_def)
  moreover have "py_isspace c \<Longrightarrow> \<not> ascii_digit c"
    by (auto simp: py_isspace_def ascii_digit_def)
  ultimately show ?thesis using a d by (auto simp: dec_char_def)
qed

lemma ascii_digit_not_colon: "ascii_digit c \<Longrightarrow> c \<noteq> CHR '':''"
  by (auto simp: ascii_digit_def)

lemma int_of_str_decimal_string:
  assumes "decimal_string s"
  shows "int_of_str s = Inr (int (digits_value 10 s))"
proof -
  from assms have "s \<noteq> []" and "\<And>c. c \<in> set s \<Longrightarrow> dec_char c"
    by (auto simp: decimal_string_def list_all_iff ascii_digit_dec_char)
  then show ?thesis by (simp add: int_of_str_def py_int_digit_string)
qed

lemma join_split_on: "join [c] (split_on c s) = s"
proof (induction s)
  case Nil
  then show ?case by simp
next
  case (Cons x xs)
  obtain w ws where sp: "split_on c xs = w # ws"
    using split_on_nonempty [of c xs] by (cases "split_on c xs") auto
  with Cons.IH have j: "join [c] (w # ws) = xs" by simp
  show ?case
  proof (cases "x = c")
    case True
    with sp j show ?thesis by simp
  next
    case False
    with sp j show ?thesis by (cases ws) auto
  qed
qed

lemma well_formed_address_private:
  assumes "well_formed_address address"
  shows "\<exists>private. is_private (Str address) = Inr private"
proof -
  from assms obtain a b c d where
    sp: "split_on CHR ''.'' address = [a, b, c, d]"
    and dec: "decimal_string a" "decimal_string b" "decimal_string c" "decimal_string d"
    by (auto simp: well_formed_address_def split: list.splits)
  have "address = join ''.'' (split_on CHR ''.'' address)"
    by (simp add: join_split_on)
  then have "address = a @ ''.'' @ b @ ''.'' @ c @ ''.'' @ d"
    unfolding sp by simp
  then have len: "4 < length address"
    using dec by (cases a; cases b; cases c; cases d) (auto simp: decimal_string_def)
  from int_of_str_decimal_string [OF dec(2)] obtain n where n: "py_int 10 b = Some n"
    by (auto simp: int_of_str_def split: option.splits)
  show ?thesis
    using len
    by (simp add: is_private_def address_pairs_def sp bind_err_Inr classify_pairs_def item_def n)
qed

lemma well_formed_endpoint_parts:
  assumes "well_formed_endpoint endpoint"
  obtains address port where
    "unpack2 (split_on CHR '':'' endpoint) = Inr (address, port)"
    "address_of endpoint = address"
    "well_formed_address address" "decimal_string port"
proof -
  from assms obtain address port where
    sp: "split_on CHR '':'' endpoint = [address, port]"
    and wf: "well_formed_address address" "decimal_string port"
    by (auto simp: well_formed_endpoint_def split: list.splits)
  have "item (split_on CHR '':'' endpoint) 0 = Inr (address_of endpoint)"
    by (simp add: item_split_on_0 address_of_def)
  with sp have "address_of endpoint = address" by (simp add: item_def)
  with sp wf show ?thesis by (intro that) (simp_all add: unpack2_def)
qed


lemma first_packet_nonempty: "session \<noteq> [] \<Longrightarrow> \<exists>packet. first_packet session = Inr packet"
  by (cases session) (simp_all add: first_packet_def item_def bind_err_Inr)

lemma is_protocol_nonempty: "session \<noteq> [] \<Longrightarrow> \<exists>b. is_protocol session protocol = Inr b"
  using first_packet_nonempty [of session]
  by (auto simp: is_protocol_def extract_protocol_def bind_err_Inr)

lemma bump_at_returns:
  assumes "int n < max_port" and "length xs = nat max_port"
  shows "\<exists>ys. bump_at xs (int n) = Inr ys \<and> length ys = nat max_port"
  using assms by (simp add: bump_at_def Let_def)

lemma bump_below_returns:
  assumes "length xs = nat max_port"
  shows "\<exists>ys. (if int n < max_port then bump_at xs (int n) else Inr xs) = Inr ys \<and>
           length ys = nat max_port"
  using assms bump_at_returns [of n max_port xs] by (cases "int n < max_port") simp_all

lemma source_side_returns:
  assumes priv: "is_private (Str address_2) = Inr private_2"
    and session: "session \<noteq> []"
    and ports: "decimal_string port_1" "decimal_string port_2"
    and lengths: "length (num_source_sess a) = nat max_port"
      "length (num_destination_sess a) = nat max_port"
  shows "\<exists>a'. source_side max_port a session address_1 port_1 address_2 port_2 = Inr a' \<and>
           length (num_source_sess a') = nat max_port \<and>
           length (num_destination_sess a') = nat max_port"
proof -
  from is_protocol_nonempty [OF session] obtain tcp udp icmp where
    protocols: "is_protocol session ''06'' = Inr tcp" "is_protocol session ''11'' = Inr udp"
      "is_protocol session ''01'' = Inr icmp"
    by blast
  note p1 = int_of_str_decimal_string [OF ports(1)]
  note p2 = int_of_str_decimal_string [OF ports(2)]
  from bump_below_returns [OF lengths(1)] obtain src where
    src: "(if int (digits_value 10 port_1) < max_port
           then bump_at (num_source_sess a) (int (digits_value 10 port_1))
           else Inr (num_source_sess a)) = Inr src"
      "length src = nat max_port"
    by blast
  from bump_below_returns [OF lengths(2)] obtain dst where
    dst: "(if int (digits_value 10 port_2) < max_port
           then bump_at (num_destination_sess a) (int (digits_value 10 port_2))
           else Inr (num_destination_sess a)) = Inr dst"
      "length dst = nat max_port"
    by blast
  show ?thesis
    by (simp add: source_side_def Let_def priv protocols p1 p2 bind_err_Inr src dst
        cong: if_cong)
qed

lemma scan_session_returns:
  assumes wf: "well_formed_endpoint (fst (fst ks))" "well_formed_endpoint (snd (fst ks))"
    and session: "snd ks \<noteq> []"
    and lengths: "length (num_source_sess a) = nat max_port"
      "length (num_destination_sess a) = nat max_port"
  shows "\<exists>a'. scan_session source max_port a ks = Inr a' \<and>
           length (num_source_sess a') = nat max_port \<and>
           length (num_destination_sess a') = nat max_port"
proof -
  from wf(1) obtain address_1 port_1 where
    e1: "unpack2 (split_on CHR '':'' (fst (fst ks))) = Inr (address_1, port_1)"
      "well_formed_address address_1" "decimal_string port_1"
    by (rule well_formed_endpoint_parts)
  from wf(2) obtain address_2 port_2 where
    e2: "unpack2 (split_on CHR '':'' (snd (fst ks))) = Inr (address_2, port_2)"
      "well_formed_address address_2" "decimal_string port_2"
    by (rule well_formed_endpoint_parts)
  from first_packet_nonempty [OF session] obtain packet where
    packet: "first_packet (snd ks) = Inr packet"
    by blast
  from well_formed_address_private [OF e1(2)] obtain private_1 where
    private_1: "is_private (Str address_1) = Inr private_1"
    by blast
  from well_formed_address_private [OF e2(2)] obtain private_2 where
    private_2: "is_private (Str address_2) = Inr private_2"
    by blast
  show ?thesis
  proof (cases "Mac (fst (extract_macs packet)) = source")
    case True
    from source_side_returns [OF private_2 session e1(3) e2(3) lengths, of address_1]
    obtain a5 where
      "source_side max_port a (snd ks) address_1 port_1 address_2 port_2 = Inr a5"
      "length (num_source_sess a5) = nat max_port"
      "length (num_destination_sess a5) = nat max_port"
      by blast
    with True show ?thesis
      by (simp add: scan_session_def Let_def e1(1) e2(1) packet bind_err_Inr
          destination_side_def private_1)
  next
    case False
    with lengths show ?thesis
      by (simp add: scan_session_def Let_def e1(1) e2(1) packet bind_err_Inr
          destination_side_def private_1)
  qed
qed

lemma scan_sessions_returns:
  assumes "well_formed session_dict"
    and "length (num_source_sess a) = nat max_port"
    and "length (num_destination_sess a) = nat max_port"
  shows "\<exists>a'. scan_sessions source max_port a session_dict = Inr a'"
  using assms
proof (induction session_dict arbitrary: a)
  case Nil
  then show ?case by simp
next
  case (Cons ks rest)
  from Cons.prems(1) have wf:
    "well_formed_endpoint (fst (fst ks))" "well_formed_endpoint (snd (fst ks))" "snd ks \<noteq> []"
    "well_formed rest"
    by (simp_all add: well_formed_def)
  from scan_session_returns [OF wf(1-3) Cons.prems(2,3)] obtain a1 where
    a1: "scan_session source max_port a ks = Inr a1"
      "length (num_source_sess a1) = nat max_port"
      "length (num_destination_sess a1) = nat max_port"
    by blast
  from Cons.IH [OF wf(4) a1(2,3)] a1(1) show ?case
    by (simp add: bind_err_Inr)
qed

lemma count_session_returns:
  assumes wf: "well_formed_endpoint (fst (fst ks))" "well_formed_endpoint (snd (fst ks))"
    and session: "snd ks \<noteq> []"
  shows "\<exists>c'. count_session c ks = Inr c'"
proof -
  from wf(1) obtain address_1 port_1 where
    e1: "address_of (fst (fst ks)) = address_1" "well_formed_address address_1"
    by (rule well_formed_endpoint_parts)
  from wf(2) obtain address_2 port_2 where
    e2: "address_of (snd (fst ks)) = address_2" "well_formed_address address_2"
    by (rule well_formed_endpoint_parts)
  from first_packet_nonempty [OF session] obtain packet where
    packet: "first_packet (snd ks) = Inr packet"
    by blast
  from well_formed_address_private [OF e1(2)] obtain private_1 where
    private_1: "is_private (Str address_1) = Inr private_1"
    by blast
  from well_formed_address_private [OF e2(2)] obtain private_2 where
    private_2: "is_private (Str address_2) = Inr private_2"
    by blast
  show ?thesis
    by (simp add: count_session_unfold packet e1(1) e2(1) private_1 private_2 bind_err_Inr)
qed

lemma count_sessions_returns:
  assumes "well_formed session_dict"
  shows "\<exists>c'. count_sessions c session_dict = Inr c'"
  using assms
proof (induction session_dict arbitrary: c)
  case Nil
  then show ?case by simp
next
  case (Cons ks rest)
  from Cons.prems have wf:
    "well_formed_endpoint (fst (fst ks))" "well_formed_endpoint (snd (fst ks))" "snd ks \<noteq> []"
    "well_formed rest"
    by (simp_all add: well_formed_def)
  from count_session_returns [OF wf(1-3)] obtain c1 where "count_session c ks = Inr c1"
    by blast
  with Cons.IH [OF wf(4), of c1] show ?case
    by (simp add: bind_err_Inr)
qed

lemma get_source_returns:
  assumes "well_formed session_dict"
  shows "\<exists>source. get_source session_dict = Inr source"
proof -
  from count_sessions_returns [OF assms] obtain c where
    "count_sessions empty_counters session_dict = Inr c"
    by blast
  then show ?thesis by (simp add: get_source_def bind_err_Inr Let_def)
qed

lemma extract_features_returns:
  assumes "well_formed session_dict"
  shows "\<exists>vector source peers.
           extract_features session_dict capture_source max_port = Inr (vector, source, peers)"
proof -
  obtain source where source: "resolve_source session_dict capture_source = Inr source"
    using get_source_returns [OF assms]
    by (cases capture_source) (auto simp: resolve_source_def)
  from scan_sessions_returns [OF assms, of "init_aggregate max_port" max_port source]
  obtain a where "scan_sessions source max_port (init_aggregate max_port) session_dict = Inr a"
    by (auto simp: init_aggregate_def)
  with source show ?thesis by (simp add: extract_features_def bind_err_Inr)
qed


subsection \<open>C5: the source-port histogram\<close>

lemma extract_features_counts:
  assumes "extract_features session_dict capture_source max_port = Inr (vector, source, peers)"
  shows "\<exists>a. resolve_source session_dict capture_source = Inr source \<and>
           scan_sessions source max_port (init_aggregate max_port) session_dict = Inr a \<and>
           vector = feature_vector a \<and>
           num_sessions a = int (length (matching source session_dict)) \<and>
           sum_list (num_source_sess a) =
             int (length (matching source session_dict))
             - int (length (matching_unbinned source max_port session_dict))"
proof -
  from assms obtain a where
    r: "resolve_source session_dict capture_source = Inr source"
    and s: "scan_sessions source max_port (init_aggregate max_port) session_dict = Inr a"
    and v: "vector = feature_vector a"
    unfolding extract_features_def bind_err_Inr_iff by auto
  note counts = scan_sessions_counts [OF s]
  from counts have ports: "\<forall>ks\<in>set (matching source session_dict). source_port (fst ks) \<noteq> None"
    by blast
  from counts length_matching_split [OF ports, of max_port]
  have "num_sessions a = int (length (matching source session_dict))"
    "sum_list (num_source_sess a) =
       int (length (matching source session_dict))
       - int (length (matching_unbinned source max_port session_dict))"
    by (simp_all add: sum_list_init)
  with r s v show ?thesis by blast
qed

text \<open>
  C5. On every well-formed session mapping \<open>extract_features\<close> returns. Whenever it
  returns, the counts it built satisfy: the number of sessions counted is the number of
  sessions whose first packet has the resolved capture source as its source MAC, and the
  sum of the source-port histogram before normalisation is that number minus the number of
  those sessions whose source port is \<open>max_port\<close> or more, which get no bin. The vector
  returned is the normalisation of these counts.
\<close>

theorem source_histogram_sum:
  "(well_formed session_dict \<longrightarrow>
      (\<exists>vector source peers.
         extract_features session_dict capture_source max_port = Inr (vector, source, peers))) \<and>
   (\<forall>vector source peers.
      extract_features session_dict capture_source max_port = Inr (vector, source, peers) \<longrightarrow>
      (\<exists>a. resolve_source session_dict capture_source = Inr source \<and>
           scan_sessions source max_port (init_aggregate max_port) session_dict = Inr a \<and>
           vector = feature_vector a \<and>
           num_sessions a = int (length (matching source session_dict)) \<and>
           sum_list (num_source_sess a) =
             int (length (matching source session_dict))
             - int (length (matching_unbinned source max_port session_dict))))"
  using extract_features_returns [of session_dict capture_source max_port]
    extract_features_counts [of session_dict capture_source max_port]
  by blast

lemma scenario_well_formed: "well_formed two_sessions" "well_formed tcp_session_only"
  by (simp_all add: well_formed_def two_sessions_def tcp_session_only_def
      well_formed_endpoint_def well_formed_address_def decimal_string_def ascii_digit_def)

theorem source_histogram_sum_witness:
  "well_formed two_sessions \<and>
   (\<exists>vector source peers. extract_features two_sessions None 1024 = Inr (vector, source, peers)) \<and>
   length (matching (Mac ''aa:aa:aa:aa:aa:aa'') two_sessions) = 2 \<and>
   length (matching_unbinned (Mac ''aa:aa:aa:aa:aa:aa'') 1024 two_sessions) = 1 \<and>
   (\<exists>a. scan_sessions (Mac ''aa:aa:aa:aa:aa:aa'') 1024 (init_aggregate 1024) two_sessions = Inr a \<and>
        num_sessions a = 2 \<and> sum_list (num_source_sess a) = 2 - 1)"
proof -
  note inst = source_histogram_sum [of two_sessions None 1024]
  have m: "length (matching (Mac ''aa:aa:aa:aa:aa:aa'') two_sessions) = 2"
    by (simp add: matching_def two_sessions_def source_matches_def scenario_macs)
  have u: "length (matching_unbinned (Mac ''aa:aa:aa:aa:aa:aa'') 1024 two_sessions) = 1"
    by (simp add: matching_unbinned_def matching_def two_sessions_def source_matches_def
        scenario_macs port_at_least_def source_port_def unpack2_def scenario_keys scenario_py_ints
        del: split_on.simps)
  from inst scenario_well_formed(1) have returns:
    "\<exists>vector source peers. extract_features two_sessions None 1024 = Inr (vector, source, peers)"
    by blast
  from inst extract_features_two_sessions obtain a where
    "scan_sessions (Mac ''aa:aa:aa:aa:aa:aa'') 1024 (init_aggregate 1024) two_sessions = Inr a"
    "num_sessions a = int (length (matching (Mac ''aa:aa:aa:aa:aa:aa'') two_sessions))"
    "sum_list (num_source_sess a) =
       int (length (matching (Mac ''aa:aa:aa:aa:aa:aa'') two_sessions))
       - int (length (matching_unbinned (Mac ''aa:aa:aa:aa:aa:aa'') 1024 two_sessions))"
    by blast
  then have "\<exists>a. scan_sessions (Mac ''aa:aa:aa:aa:aa:aa'') 1024 (init_aggregate 1024) two_sessions
                  = Inr a \<and> num_sessions a = 2 \<and> sum_list (num_source_sess a) = 2 - 1"
    unfolding m u by auto
  with scenario_well_formed(1) returns m u show ?thesis by blast
qed

subsection \<open>C4: get_source returns the most frequent MAC\<close>

lemma get_source_first_most_frequent:
  assumes "get_source session_dict = Inr source"
    and "\<exists>ks\<in>set session_dict. both_private (fst ks)"
  shows "\<exists>m. source = Mac m \<and> m \<in> set (mac_occurrences session_dict) \<and>
           (\<forall>m'. count_list (mac_occurrences session_dict) m'
                   \<le> count_list (mac_occurrences session_dict) m) \<and>
           (\<forall>m'\<in>set (takeWhile (\<lambda>x. x \<noteq> m) (mac_occurrences session_dict)).
               count_list (mac_occurrences session_dict) m'
                 < count_list (mac_occurrences session_dict) m)"
proof -
  let ?occ = "mac_occurrences session_dict"
  obtain c where c: "count_sessions empty_counters session_dict = Inr c"
    using assms(1)
    by (cases "count_sessions empty_counters session_dict")
      (simp_all add: get_source_def bind_err_def)
  from count_sessions_macs [OF c] have
    sessions: "\<forall>ks\<in>set session_dict. snd ks \<noteq> []"
    and macs: "all_macs c = fold incr ?occ []"
    by (simp_all add: empty_counters_def)
  let ?keys = "map fst (all_macs c)"
  let ?f = "count_of (all_macs c)"
  let ?h = "sorted_desc ?f ?keys ! 0"
  have occ: "?occ \<noteq> []"
    using sessions assms(2) by (rule mac_occurrences_nonempty)
  have set_keys: "set ?keys = set ?occ"
    unfolding macs using keys_fold_incr_set [of ?occ "[]"] by simp
  have empty: "count_of [] k = 0" for k
    by (simp add: count_of_def)
  have f: "\<And>k. ?f k = int (count_list ?occ k)"
    unfolding macs by (simp add: count_of_fold_incr empty)
  have keys: "?keys \<noteq> []" using occ set_keys by (metis set_empty)
  have nonempty: "session_dict \<noteq> []" using assms(2) by auto
  have sorted: "length (sorted_desc ?f ?keys) > 0"
    using keys by (simp add: sorted_desc_def)
  from assms(1) nonempty sorted have source: "source = Mac ?h"
    by (simp add: get_source_def c bind_err_Inr Let_def)
  note first = sorted_desc_first [OF keys refl, of ?f]
  have mem: "?h \<in> set ?occ" using first(1) set_keys by simp
  have le_h: "count_list ?occ m' \<le> count_list ?occ ?h" for m'
  proof (cases "m' \<in> set ?occ")
    case True
    then have "?f m' \<le> ?f ?h" using first(2) set_keys by blast
    then show ?thesis by (simp add: f)
  next
    case False
    then show ?thesis by (simp add: count_list_0_iff)
  qed
  have tie: "count_list ?occ m' < count_list ?occ ?h"
    if "m' \<in> set (takeWhile (\<lambda>x. x \<noteq> ?h) ?occ)" for m'
  proof -
    from that have "m' \<in> set (takeWhile (\<lambda>x. x \<noteq> ?h) (map fst ([] :: counts) @ ?occ))"
      by simp
    then have "m' \<in> set (takeWhile (\<lambda>x. x \<noteq> ?h) ?keys)"
      unfolding macs by (rule keys_fold_incr_order)
    then have "?f m' \<noteq> ?f ?h" using first(3) by blast
    then have "count_list ?occ m' \<noteq> count_list ?occ ?h"
      by (simp add: f)
    with le_h [of m'] show ?thesis by (simp add: le_neq_trans)
  qed
  from source mem le_h tie show ?thesis by blast
qed


lemma get_source_tcp_session_only:
  "get_source tcp_session_only = Inr (Mac ''aa:aa:aa:aa:aa:aa'')"
proof -
  have c: "count_sessions empty_counters tcp_session_only =
     Inr \<lparr>all_ips = [(''192.168.1.10'', 1), (''192.168.1.5'', 1)],
          all_macs = [(''aa:aa:aa:aa:aa:aa'', 1), (''bb:bb:bb:bb:bb:bb'', 1)],
          incoming_ips = [(''192.168.1.10'', 1)],
          incoming_macs = [(''aa:aa:aa:aa:aa:aa'', 1)],
          outgoing_ips = [(''192.168.1.5'', 1), (''bb:bb:bb:bb:bb:bb'', 1)],
          outgoing_macs = []\<rparr>"
    by (simp add: tcp_session_only_def count_session_def Let_def item_def scenario_keys
        first_packet_single scenario_macs scenario_privates bind_err_Inr empty_counters_def
        del: split_on.simps)
  have l: "tcp_session_only \<noteq> []" by (simp add: tcp_session_only_def)
  show ?thesis
    by (simp add: get_source_def c bind_err_Inr l Let_def sorted_desc_def count_of_def)
qed

lemma scenario_addresses:
  "address_of ''192.168.1.5:80'' = ''192.168.1.5''"
  "address_of ''192.168.1.10:4000'' = ''192.168.1.10''"
  "address_of ''192.168.1.5:5353'' = ''192.168.1.5''"
  "address_of ''192.168.1.11:53'' = ''192.168.1.11''"
  by (simp_all add: address_of_def)

lemma scenario_mac_occurrences:
  "mac_occurrences two_sessions =
     [''aa:aa:aa:aa:aa:aa'', ''bb:bb:bb:bb:bb:bb'', ''aa:aa:aa:aa:aa:aa'', ''cc:cc:cc:cc:cc:cc'']"
  "mac_occurrences tcp_session_only = [''aa:aa:aa:aa:aa:aa'', ''bb:bb:bb:bb:bb:bb'']"
  by (simp_all add: mac_occurrences_def two_sessions_def tcp_session_only_def both_private_def
      scenario_addresses scenario_privates session_macs_def scenario_macs)

text \<open>
  C4. Let the occurrences be the source and destination MAC of the first packet of every
  session whose two endpoint addresses are private, in iteration order. On a mapping with
  at least one such session, \<open>get_source\<close> returns if the mapping is well formed, and
  whenever it returns, it returns a MAC that occurs, no MAC occurs more often, and every
  MAC seen before its first occurrence occurs strictly less often: among the most frequent
  MACs it is the first in iteration order, as the stable descending sort leaves it.
\<close>

theorem get_source_most_frequent:
  assumes "\<exists>ks\<in>set session_dict. both_private (fst ks)"
  shows "(well_formed session_dict \<longrightarrow> (\<exists>source. get_source session_dict = Inr source)) \<and>
         (\<forall>source. get_source session_dict = Inr source \<longrightarrow>
            (\<exists>m. source = Mac m \<and> m \<in> set (mac_occurrences session_dict) \<and>
               (\<forall>m'. count_list (mac_occurrences session_dict) m'
                       \<le> count_list (mac_occurrences session_dict) m) \<and>
               (\<forall>m'\<in>set (takeWhile (\<lambda>x. x \<noteq> m) (mac_occurrences session_dict)).
                   count_list (mac_occurrences session_dict) m'
                     < count_list (mac_occurrences session_dict) m)))"
  using get_source_returns [of session_dict]
    get_source_first_most_frequent [OF _ assms]
  by blast

theorem get_source_most_frequent_witness:
  "well_formed two_sessions \<and> (\<exists>source. get_source two_sessions = Inr source) \<and>
   get_source two_sessions = Inr (Mac ''aa:aa:aa:aa:aa:aa'') \<and>
   (\<forall>m'. count_list (mac_occurrences two_sessions) m'
           \<le> count_list (mac_occurrences two_sessions) ''aa:aa:aa:aa:aa:aa'') \<and>
   get_source tcp_session_only = Inr (Mac ''aa:aa:aa:aa:aa:aa'') \<and>
   mac_occurrences tcp_session_only = [''aa:aa:aa:aa:aa:aa'', ''bb:bb:bb:bb:bb:bb''] \<and>
   (\<forall>m'. count_list (mac_occurrences tcp_session_only) m'
           \<le> count_list (mac_occurrences tcp_session_only) ''aa:aa:aa:aa:aa:aa'')"
proof -
  have p2: "\<exists>ks\<in>set two_sessions. both_private (fst ks)"
    by (simp add: two_sessions_def both_private_def scenario_addresses scenario_privates)
  have p1: "\<exists>ks\<in>set tcp_session_only. both_private (fst ks)"
    by (simp add: tcp_session_only_def both_private_def scenario_addresses scenario_privates)
  note two = get_source_most_frequent [OF p2]
  note one = get_source_most_frequent [OF p1]
  from two scenario_well_formed(1) have 0: "\<exists>source. get_source two_sessions = Inr source"
    by blast
  from two get_source_two_sessions
  have 2: "\<forall>m'. count_list (mac_occurrences two_sessions) m'
           \<le> count_list (mac_occurrences two_sessions) ''aa:aa:aa:aa:aa:aa''"
    by blast
  from one get_source_tcp_session_only
  have 1: "\<forall>m'. count_list (mac_occurrences tcp_session_only) m'
           \<le> count_list (mac_occurrences tcp_session_only) ''aa:aa:aa:aa:aa:aa''"
    by blast
  from 0 1 2 scenario_well_formed(1) get_source_two_sessions get_source_tcp_session_only
    scenario_mac_occurrences(2)
  show ?thesis by blast
qed

subsection \<open>C1: is_external compares the three-character prefixes\<close>

text \<open>
  C1 (as the code has it). \<open>is_external\<close> returns true exactly when the two strings
  agree on their first three characters (a position that one string lacks must be lacking
  in the other too), and false when the prefixes differ. It compares characters, not octets.
  The claim as written has the two answers the other way round.
\<close>

theorem is_external_iff_prefix_equal:
  "is_external address_1 address_2 \<longleftrightarrow>
     char_at address_1 0 = char_at address_2 0 \<and>
     char_at address_1 1 = char_at address_2 1 \<and>
     char_at address_1 2 = char_at address_2 2"
  unfolding is_external_def using slice_0_3_eq_iff [of address_1 address_2] by simp

text \<open>
  The claim fails at \<^verbatim>\<open>is_external('10.0.0.1', '10.0.0.2')\<close>: the first three characters
  are \<^verbatim>\<open>'10.'\<close> in both, and the code returns \<^verbatim>\<open>True\<close>.
\<close>

theorem is_external_equal_prefix_counterexample:
  "slice 0 3 ''10.0.0.1'' = slice 0 3 ''10.0.0.2'' \<and> is_external ''10.0.0.1'' ''10.0.0.2'' = True"
  by (simp add: is_external_def slice_def)

subsection \<open>C10: is_external is symmetric\<close>

text \<open>
  C10. For every pair of address strings,
  \<^verbatim>\<open>is_external(address_1, address_2) = is_external(address_2, address_1)\<close>.
\<close>

theorem is_external_symmetric:
  "is_external address_1 address_2 = is_external address_2 address_1"
  by (auto simp: is_external_def)

end
